theory Spec2Isabelle
  imports Complex_Main "HOL-Library.Word" "HOL-Library.Signed_Division"
begin

section \<open>Package storage: the results sink\<close>

text \<open>
  \<^verbatim>\<open>time.Duration\<close> is a signed 64-bit count of nanoseconds; sums of durations wrap.
  A Go \<^verbatim>\<open>error\<close> value is \<open>None\<close> (nil) or \<open>Some text\<close> (what \<^verbatim>\<open>err.Error()\<close> returns).
  The \<^verbatim>\<open>CrawledAt\<close> stamp is read from the wall clock and is left out of the page.
\<close>

type_synonym time_Duration = "64 word"

record Page =
  URL :: string
  Title :: string
  Description :: string
  Links :: "string list"
  ResponseTime :: time_Duration
  Success :: bool
  Error :: string

record Stats =
  TotalPages :: nat
  UniqueLinks :: nat
  AvgResponseTime :: real
  SuccessCount :: nat
  FailCount :: nat
  Duration :: time_Duration

record Results =
  pages :: "Page list"
  duration :: time_Duration

definition NewResults :: Results where
  "NewResults = \<lparr>pages = [], duration = 0\<rparr>"

definition AddPage ::
  "Results \<Rightarrow> string \<Rightarrow> string \<Rightarrow> string \<Rightarrow> string list \<Rightarrow> time_Duration \<Rightarrow> string option \<Rightarrow> Results"
where
  "AddPage r url title description links responseTime err =
     r\<lparr>pages := pages r @
        [\<lparr>URL = url, Title = title, Description = description, Links = links,
          ResponseTime = responseTime, Success = (err = None),
          Error = (case err of None \<Rightarrow> [] | Some text \<Rightarrow> text)\<rparr>]\<rparr>"

text \<open>\<^verbatim>\<open>Duration.Milliseconds\<close>: the signed nanosecond count divided by \<open>10^6\<close>, truncated
  towards zero.\<close>

definition Milliseconds :: "time_Duration \<Rightarrow> int" where
  "Milliseconds d = sint d sdiv 1000000"

text \<open>The accumulators of the loop in \<^verbatim>\<open>GetStats\<close>: the wrapping total, the two counters
  and the keys of the \<^verbatim>\<open>uniqueLinks\<close> map.\<close>

record stats_acc =
  totalTime :: time_Duration
  successes :: nat
  failures :: nat
  uniqueLinks :: "string list"

definition stats_step :: "stats_acc \<Rightarrow> Page \<Rightarrow> stats_acc" where
  "stats_step a page =
     \<lparr>totalTime = totalTime a + ResponseTime page,
      successes = (if Success page then successes a + 1 else successes a),
      failures = (if Success page then failures a else failures a + 1),
      uniqueLinks = foldl (\<lambda>ks link. List.insert link ks) (uniqueLinks a) (Links page)\<rparr>"

definition GetStats :: "Results \<Rightarrow> Stats" where
  "GetStats r =
     (let stats = \<lparr>TotalPages = length (pages r), UniqueLinks = 0, AvgResponseTime = 0,
                   SuccessCount = 0, FailCount = 0, Duration = duration r\<rparr>
      in if TotalPages stats = 0 then stats
         else
           let a = foldl stats_step
                     \<lparr>totalTime = 0, successes = 0, failures = 0, uniqueLinks = []\<rparr> (pages r)
           in stats\<lparr>SuccessCount := successes a, FailCount := failures a,
                    UniqueLinks := length (uniqueLinks a),
                    AvgResponseTime :=
                      real_of_int (Milliseconds (totalTime a)) / real (TotalPages stats)\<rparr>)"

text \<open>One call of \<^verbatim>\<open>AddPage\<close>, as the tuple of its arguments, and a sequence of calls.\<close>

record add_call =
  call_url :: string
  call_title :: string
  call_description :: string
  call_links :: "string list"
  call_time :: time_Duration
  call_err :: "string option"

definition page_of_call :: "add_call \<Rightarrow> Page" where
  "page_of_call k =
     \<lparr>URL = call_url k, Title = call_title k, Description = call_description k,
      Links = call_links k, ResponseTime = call_time k, Success = (call_err k = None),
      Error = (case call_err k of None \<Rightarrow> [] | Some text \<Rightarrow> text)\<rparr>"

definition add_page_call :: "Results \<Rightarrow> add_call \<Rightarrow> Results" where
  "add_page_call r k =
     AddPage r (call_url k) (call_title k) (call_description k) (call_links k)
       (call_time k) (call_err k)"

definition add_pages :: "Results \<Rightarrow> add_call list \<Rightarrow> Results" where
  "add_pages r ks = foldl add_page_call r ks"

section \<open>Channels, panics and blocking\<close>

text \<open>
  A buffered channel is its buffer and its capacity. A send into an open channel fits
  when the buffer has room; otherwise a plain send blocks and a \<^verbatim>\<open>select\<close> with a
  \<^verbatim>\<open>default\<close> case moves on. \<open>chan_send\<close> returns \<open>None\<close> where the send cannot proceed.
  A receive takes the oldest buffered value, also after the channel has been closed.
\<close>

record 'a chan =
  buf :: "'a list"
  cap :: nat

definition chan_send :: "('a, 'z) chan_scheme \<Rightarrow> 'a \<Rightarrow> ('a, 'z) chan_scheme option" where
  "chan_send ch x = (if length (buf ch) < cap ch then Some (ch\<lparr>buf := buf ch @ [x]\<rparr>) else None)"

definition chan_recv :: "('a, 'z) chan_scheme \<Rightarrow> ('a \<times> ('a, 'z) chan_scheme) option" where
  "chan_recv ch = (case buf ch of [] \<Rightarrow> None | x # xs \<Rightarrow> Some (x, ch\<lparr>buf := xs\<rparr>))"

text \<open>
  A channel that the program closes carries the flag \<open>closed\<close>. The \<^verbatim>\<open>tokens\<close> channel of
  the rate limiter is closed only by \<^verbatim>\<open>Stop\<close>, which the program never calls, and is a
  plain \<open>chan\<close>; the \<^verbatim>\<open>jobs\<close> channel is closed by \<^verbatim>\<open>Crawl\<close> while the workers are still
  running. A send on a closed channel panics, also as a case of a \<^verbatim>\<open>select\<close> with a
  \<^verbatim>\<open>default\<close>; a receive from a closed channel whose buffer is empty returns at once
  with \<^verbatim>\<open>ok = false\<close>.
\<close>

record 'a closable_chan = "'a chan" +
  closed :: bool

datatype panic =
  IntegerDivideByZero
  | NonPositiveTickerInterval
  | MakechanSizeOutOfRange
  | NilPointerDereference
  | SendOnClosedChannel

text \<open>What a call does: it returns a value, panics, or never returns.\<close>

datatype 'a go_result = Returns 'a | Panics panic | BlocksForever

section \<open>Package crawler: the rate limiter\<close>

text \<open>
  \<^verbatim>\<open>requestsPerSecond\<close> is a Go \<^verbatim>\<open>int\<close>; the only arithmetic on it is the division
  \<^verbatim>\<open>time.Second / time.Duration(requestsPerSecond)\<close>, which truncates towards zero and
  cannot overflow, so \<open>int\<close> with \<open>sdiv\<close> is exact. The ticker is kept as its interval
  in nanoseconds; \<^verbatim>\<open>time.NewTicker\<close> panics on an interval that is not positive, and
  \<^verbatim>\<open>make\<close> panics on a negative channel size.
\<close>

record RateLimiter =
  ticker :: int
  tokens :: "unit chan"

fun fill_tokens :: "nat \<Rightarrow> RateLimiter \<Rightarrow> RateLimiter option" where
  "fill_tokens 0 rl = Some rl"
| "fill_tokens (Suc n) rl =
     (case chan_send (tokens rl) () of
        None \<Rightarrow> None
      | Some ch \<Rightarrow> fill_tokens n (rl\<lparr>tokens := ch\<rparr>))"

definition NewRateLimiter :: "int \<Rightarrow> RateLimiter go_result" where
  "NewRateLimiter requestsPerSecond =
     (if requestsPerSecond = 0 then Panics IntegerDivideByZero
      else
        let interval = 1000000000 sdiv requestsPerSecond in
        if interval \<le> 0 then Panics NonPositiveTickerInterval
        else if requestsPerSecond < 0 then Panics MakechanSizeOutOfRange
        else
          (case fill_tokens (nat requestsPerSecond)
                  \<lparr>ticker = interval, tokens = \<lparr>buf = [], cap = nat requestsPerSecond\<rparr>\<rparr> of
             None \<Rightarrow> BlocksForever
           | Some rl \<Rightarrow> Returns rl))"

text \<open>\<^verbatim>\<open>len(rl.tokens)\<close> and \<^verbatim>\<open>cap(rl.tokens)\<close>.\<close>

definition token_count :: "RateLimiter \<Rightarrow> nat" where
  "token_count rl = length (buf (tokens rl))"

definition capacity :: "RateLimiter \<Rightarrow> nat" where
  "capacity rl = cap (tokens rl)"

text \<open>One pass of the refill goroutine's loop body: send a token or, when the channel is
  full, take the \<^verbatim>\<open>default\<close> case.\<close>

definition refill :: "RateLimiter \<Rightarrow> RateLimiter" where
  "refill rl = (case chan_send (tokens rl) () of Some ch \<Rightarrow> rl\<lparr>tokens := ch\<rparr> | None \<Rightarrow> rl)"

text \<open>
  \<^verbatim>\<open>Wait\<close>: a \<^verbatim>\<open>select\<close> over a receive from \<^verbatim>\<open>tokens\<close> and \<^verbatim>\<open>ctx.Done()\<close>. \<open>ctx_done\<close> says
  whether the context is cancelled; when both cases are ready Go picks either, and
  \<open>pick_done\<close> is that pick. With neither ready the caller stays blocked.
\<close>

datatype wait_result = TokenReceived | WaitCancelled | WaitBlocked

definition Wait :: "bool \<Rightarrow> bool \<Rightarrow> RateLimiter \<Rightarrow> wait_result \<times> RateLimiter" where
  "Wait ctx_done pick_done rl =
     (case chan_recv (tokens rl) of
        Some (t, ch) \<Rightarrow>
          if ctx_done \<and> pick_done then (WaitCancelled, rl)
          else (TokenReceived, rl\<lparr>tokens := ch\<rparr>)
      | None \<Rightarrow> if ctx_done then (WaitCancelled, rl) else (WaitBlocked, rl))"

text \<open>The life of a limiter: refill ticks and \<^verbatim>\<open>Wait\<close> calls in any order. (\<^verbatim>\<open>Stop\<close> is
  never called by the program.)\<close>

datatype limiter_event = RefillTick | WaitCall bool bool

fun limiter_step :: "RateLimiter \<Rightarrow> limiter_event \<Rightarrow> RateLimiter" where
  "limiter_step rl RefillTick = refill rl"
| "limiter_step rl (WaitCall ctx_done pick_done) = snd (Wait ctx_done pick_done rl)"

definition limiter_run :: "RateLimiter \<Rightarrow> limiter_event list \<Rightarrow> RateLimiter" where
  "limiter_run rl evs = foldl limiter_step rl evs"

section \<open>Package crawler: the crawler\<close>

text \<open>
  The \<^verbatim>\<open>visited\<close> map has type \<^verbatim>\<open>map[string]bool\<close>; reading a missing key gives \<open>False\<close>.
  The HTTP client is part of the environment and is not a field of the model. The
  counts and depths are Go \<^verbatim>\<open>int\<close>s; the only arithmetic on them is the depth of a child
  job, \<^verbatim>\<open>job.Depth + 1\<close>, computed only where \<^verbatim>\<open>job.Depth < c.maxDepth\<close>, so it cannot
  overflow and \<open>int\<close> is exact.
\<close>

record Crawler =
  workers :: int
  maxDepth :: int
  rateLimiter :: RateLimiter
  results :: Results
  visited :: "string \<rightharpoonup> bool"

datatype Job = Job (job_URL: string) (job_Depth: int)

definition New :: "int \<Rightarrow> int \<Rightarrow> int \<Rightarrow> Results \<Rightarrow> Crawler go_result" where
  "New workers' rateLimit maxDepth' results' =
     (case NewRateLimiter rateLimit of
        Panics p \<Rightarrow> Panics p
      | BlocksForever \<Rightarrow> BlocksForever
      | Returns rl \<Rightarrow>
          Returns \<lparr>workers = workers', maxDepth = maxDepth', rateLimiter = rl,
                   results = results', visited = Map.empty\<rparr>)"

section \<open>Package crawler: the termination monitor of Crawl\<close>








section \<open>Package crawler: the worker\<close>

subsection \<open>The environment: net/url, net/http and the HTML parser\<close>

text \<open>
  The worker calls into Go's standard library and into the HTML parser. They are
  parameters of the model, collected in \<open>Net\<close>:
  \<^item> \<open>url_Parse\<close> is \<^verbatim>\<open>url.Parse\<close> (\<open>None\<close> where it returns an error);
  \<^item> \<open>ResolveReference\<close> and \<open>url_String\<close> are the methods of \<^verbatim>\<open>*url.URL\<close>;
  \<^item> \<open>client_Get\<close> gives, for a URL string, the measured duration of \<^verbatim>\<open>c.client.Get\<close> and
    either its error text or the response: the status code and what \<^verbatim>\<open>parser.Parse\<close>
    makes of the body (an error text or the page information).
\<close>

record url_URL =
  Scheme :: string
  Host :: string
  Path :: string
  RawQuery :: string
  Fragment :: string

datatype PageInfo =
  PageInfo (info_Title: string) (info_Description: string) (info_Links: "string list")

datatype http_result = GetError string | Response int "string + PageInfo"

record Net =
  url_Parse :: "string \<Rightarrow> url_URL option"
  ResolveReference :: "url_URL \<Rightarrow> url_URL \<Rightarrow> url_URL"
  url_String :: "url_URL \<Rightarrow> string"
  client_Get :: "string \<Rightarrow> time_Duration \<times> http_result"

text \<open>
  The context, as one pass of the worker loop sees it: whether the loop's own \<^verbatim>\<open>select\<close>
  takes \<^verbatim>\<open>ctx.Done()\<close>, and for the \<^verbatim>\<open>select\<close> at the \<open>i\<close>-th link whether the context is
  cancelled there and, when the send is ready as well, whether Go picks \<^verbatim>\<open>ctx.Done()\<close>.
\<close>

record Ctx =
  outer_Done :: bool
  ctx_Done :: "nat \<Rightarrow> bool"
  pick_Done :: "nat \<Rightarrow> bool"

subsection \<open>The visited set\<close>

definition isVisited :: "Crawler \<Rightarrow> string \<Rightarrow> bool" where
  "isVisited c url = (case visited c url of None \<Rightarrow> False | Some b \<Rightarrow> b)"

definition markVisited :: "Crawler \<Rightarrow> string \<Rightarrow> Crawler" where
  "markVisited c url = c\<lparr>visited := (visited c)(url \<mapsto> True)\<rparr>"

subsection \<open>Links\<close>

definition resolveURL :: "Net \<Rightarrow> url_URL \<Rightarrow> string \<Rightarrow> string" where
  "resolveURL net base href =
     (case url_Parse net href of
        None \<Rightarrow> []
      | Some link \<Rightarrow> url_String net (ResolveReference net base link))"

definition shouldCrawl :: "Net \<Rightarrow> string \<Rightarrow> url_URL \<Rightarrow> bool" where
  "shouldCrawl net targetURL baseURL =
     (case url_Parse net targetURL of
        None \<Rightarrow> False
      | Some target \<Rightarrow>
          Host target = Host baseURL \<and> (Scheme target = ''http'' \<or> Scheme target = ''https''))"

text \<open>
  The \<^verbatim>\<open>select\<close> that offers a child job to the queue: the send, \<^verbatim>\<open>ctx.Done()\<close>, or the
  \<^verbatim>\<open>default\<close> case when neither is ready. On a closed queue the send case is always
  ready and panics when it is taken (\<open>CaseSendPanics\<close>); it is taken unless the context
  is cancelled and Go picks \<^verbatim>\<open>ctx.Done()\<close>.
\<close>

datatype select_case = CaseSend | CaseDone | CaseDefault | CaseSendPanics

definition select_enqueue ::
  "bool \<Rightarrow> bool \<Rightarrow> Job closable_chan \<Rightarrow> Job \<Rightarrow> select_case \<times> Job closable_chan"
where
  "select_enqueue ctx_done pick_done jobs job =
     (if closed jobs then
        (if ctx_done \<and> pick_done then (CaseDone, jobs) else (CaseSendPanics, jobs))
      else
        (case chan_send jobs job of
           Some jobs' \<Rightarrow> if ctx_done \<and> pick_done then (CaseDone, jobs) else (CaseSend, jobs')
         | None \<Rightarrow> if ctx_done then (CaseDone, jobs) else (CaseDefault, jobs)))"

text \<open>What the worker does next: go on with its loop, wait in the receive on an empty
  open queue, return, or die in a panic (which ends the whole program).\<close>

datatype worker_status = Running | Blocked | Returned | Panicked

fun enqueue_links ::
  "Net \<Rightarrow> Ctx \<Rightarrow> url_URL \<Rightarrow> int \<Rightarrow> string list \<Rightarrow> nat \<Rightarrow> Job closable_chan \<Rightarrow>
     worker_status \<times> Job closable_chan"
where
  "enqueue_links net ctx baseURL depth [] i jobs = (Running, jobs)"
| "enqueue_links net ctx baseURL depth (link # rest) i jobs =
     (let childURL = resolveURL net baseURL link
      in if childURL \<noteq> [] \<and> shouldCrawl net childURL baseURL then
           (case select_enqueue (ctx_Done ctx i) (pick_Done ctx i) jobs (Job childURL (depth + 1)) of
              (taken, jobs') \<Rightarrow>
                if taken = CaseDone then (Returned, jobs')
                else if taken = CaseSendPanics then (Panicked, jobs')
                else enqueue_links net ctx baseURL depth rest (Suc i) jobs')
         else enqueue_links net ctx baseURL depth rest (Suc i) jobs)"

subsection \<open>The loop body\<close>

text \<open>\<^verbatim>\<open>fmt.Errorf("status %d", code)\<close>: the code in decimal.\<close>

fun decimal :: "nat \<Rightarrow> string" where
  "decimal n =
     (if n < 10 then [''0123456789'' ! n]
      else decimal (n div 10) @ [''0123456789'' ! (n mod 10)])"

declare decimal.simps [simp del]

definition fmt_d :: "int \<Rightarrow> string" where
  "fmt_d k = (if k < 0 then CHR ''-'' # decimal (nat (- k)) else decimal (nat k))"

text \<open>
  One pass of the loop of \<^verbatim>\<open>worker\<close> for a job received from the queue. \<^verbatim>\<open>rateLimiter.Wait\<close>
  only delays the worker and is left to the limiter's own model. A job URL that
  \<^verbatim>\<open>url.Parse\<close> rejects leaves \<^verbatim>\<open>baseURL\<close> nil: links that do not parse are passed over
  before \<^verbatim>\<open>baseURL\<close> is used, and the first link that parses dereferences it and
  panics. (\<^verbatim>\<open>http.Client.Get\<close> parses the same string first, so a fetch that succeeded
  does not meet this case.)
\<close>

definition worker_body ::
  "Net \<Rightarrow> Ctx \<Rightarrow> Crawler \<Rightarrow> Job closable_chan \<Rightarrow> Job \<Rightarrow>
     worker_status \<times> Crawler \<times> Job closable_chan"
where
  "worker_body net ctx c jobs job =
     (if isVisited c (job_URL job) then (Running, c, jobs)
      else
        let c1 = markVisited c (job_URL job) in
        (case client_Get net (job_URL job) of
           (dur, GetError err) \<Rightarrow>
             (Running, c1\<lparr>results := AddPage (results c1) (job_URL job) [] [] [] dur (Some err)\<rparr>, jobs)
         | (dur, Response status parsed) \<Rightarrow>
             if status \<noteq> 200 then
               (Running,
                c1\<lparr>results := AddPage (results c1) (job_URL job) [] [] [] dur
                                 (Some (''status '' @ fmt_d status))\<rparr>,
                jobs)
             else
               (case parsed of
                  Inl err \<Rightarrow>
                    (Running,
                     c1\<lparr>results := AddPage (results c1) (job_URL job) [] [] [] dur (Some err)\<rparr>,
                     jobs)
                | Inr pageInfo \<Rightarrow>
                    let c2 = c1\<lparr>results := AddPage (results c1) (job_URL job) (info_Title pageInfo)
                                  (info_Description pageInfo) (info_Links pageInfo) dur None\<rparr>
                    in if job_Depth job < maxDepth c then
                         (case url_Parse net (job_URL job) of
                            None \<Rightarrow>
                              (if list_all (\<lambda>link. url_Parse net link = None)
                                    (info_Links pageInfo)
                               then Running else Panicked,
                               c2, jobs)
                          | Some baseURL \<Rightarrow>
                              (case enqueue_links net ctx baseURL (job_Depth job)
                                      (info_Links pageInfo) 0 jobs of
                                 (st, jobs') \<Rightarrow> (st, c2, jobs')))
                       else (Running, c2, jobs))))"

subsection \<open>The loop and the start of a crawl\<close>

text \<open>
  The loop of \<^verbatim>\<open>worker\<close>, one context per pass. Passes of several workers that do not
  overlap are passes of this loop; the overlap of two claims of one URL is modelled
  apart, below. The receive takes a buffered job also from a closed queue; on an
  empty queue the worker returns if the queue is closed and waits in its receive if
  it is open.
\<close>

fun worker ::
  "Net \<Rightarrow> Ctx list \<Rightarrow> Crawler \<Rightarrow> Job closable_chan \<Rightarrow>
     worker_status \<times> Crawler \<times> Job closable_chan"
where
  "worker net [] c jobs = (Running, c, jobs)"
| "worker net (ctx # ctxs) c jobs =
     (if outer_Done ctx then (Returned, c, jobs)
      else
        (case chan_recv jobs of
           None \<Rightarrow> (if closed jobs then Returned else Blocked, c, jobs)
         | Some (job, jobs1) \<Rightarrow>
             (case worker_body net ctx c jobs1 job of
                (st, c', jobs') \<Rightarrow>
                  if st = Running then worker net ctxs c' jobs' else (st, c', jobs'))))"

text \<open>The jobs that the loop receives, in order.\<close>

fun worker_jobs :: "Net \<Rightarrow> Ctx list \<Rightarrow> Crawler \<Rightarrow> Job closable_chan \<Rightarrow> Job list" where
  "worker_jobs net [] c jobs = []"
| "worker_jobs net (ctx # ctxs) c jobs =
     (if outer_Done ctx then []
      else
        (case chan_recv jobs of
           None \<Rightarrow> []
         | Some (job, jobs1) \<Rightarrow>
             (case worker_body net ctx c jobs1 job of
                (st, c', jobs') \<Rightarrow>
                  if st = Running then job # worker_jobs net ctxs c' jobs' else [job])))"

text \<open>\<^verbatim>\<open>Crawl\<close> makes the queue with capacity 100 and sends the seed job at depth 0.\<close>

definition Crawl_jobs :: "string \<Rightarrow> Job closable_chan" where
  "Crawl_jobs startURL = \<lparr>buf = [Job startURL 0], cap = 100, closed = False\<rparr>"


text \<open>What holds of every job of a crawl: its URL parses to a URL with the seed's host
  and, unless it is the seed URL itself, with the scheme \<^verbatim>\<open>http\<close> or \<^verbatim>\<open>https\<close>.\<close>

definition in_seed_scope :: "Net \<Rightarrow> string \<Rightarrow> url_URL \<Rightarrow> Job \<Rightarrow> bool" where
  "in_seed_scope net startURL seed j =
     (case url_Parse net (job_URL j) of
        None \<Rightarrow> False
      | Some t \<Rightarrow>
          Host t = Host seed \<and>
          (job_URL j = startURL \<or> Scheme t = ''http'' \<or> Scheme t = ''https''))"

subsection \<open>Two workers claiming at the same time\<close>

text \<open>
  \<^verbatim>\<open>isVisited\<close> holds the read lock for its lookup and \<^verbatim>\<open>markVisited\<close> holds the write lock
  for its store; between the two calls a worker holds no lock. A worker that has
  received a job is at one of four points; a schedule names the worker that takes the
  next step.
\<close>

datatype claim_point = AtIsVisited | AtMarkVisited | Fetches | Skips

definition claim_step ::
  "Crawler \<times> (string \<times> claim_point) list \<Rightarrow> nat \<Rightarrow> Crawler \<times> (string \<times> claim_point) list"
where
  "claim_step s i =
     (case s of (c, ws) \<Rightarrow>
        if i < length ws then
          (case ws ! i of
             (url, AtIsVisited) \<Rightarrow>
               (c, ws[i := (url, if isVisited c url then Skips else AtMarkVisited)])
           | (url, AtMarkVisited) \<Rightarrow> (markVisited c url, ws[i := (url, Fetches)])
           | (url, Fetches) \<Rightarrow> (c, ws)
           | (url, Skips) \<Rightarrow> (c, ws))
        else (c, ws))"

definition claim_run ::
  "nat list \<Rightarrow> Crawler \<times> (string \<times> claim_point) list \<Rightarrow> Crawler \<times> (string \<times> claim_point) list"
where
  "claim_run schedule s = foldl claim_step s schedule"

section \<open>Concrete inputs used by the examples\<close>

definition slow_call :: add_call where
  "slow_call = \<lparr>call_url = ''u'', call_title = [], call_description = [], call_links = [],
     call_time = 0x7FFFFFFFFFFFFFFF, call_err = None\<rparr>"

definition ok_call :: add_call where
  "ok_call = \<lparr>call_url = ''http://ex.test/'', call_title = ''Home'', call_description = [],
     call_links = [''/a''], call_time = 1500000, call_err = None\<rparr>"

definition failed_call :: add_call where
  "failed_call = \<lparr>call_url = ''http://ex.test/a'', call_title = [], call_description = [],
     call_links = [], call_time = 2500000, call_err = Some ''status 404''\<rparr>"

text \<open>
  A small site for the examples. \<open>example_Parse\<close> tabulates what \<^verbatim>\<open>url.Parse\<close> returns for
  the strings the examples use (\<^verbatim>\<open>%zz\<close> is an invalid escape, which it rejects);
  \<open>example_Resolve\<close> is \<^verbatim>\<open>ResolveReference\<close> for references that are absolute URLs or
  absolute paths, which keeps the reference's path, query and fragment; \<open>example_String\<close>
  is \<^verbatim>\<open>String\<close> for URLs with a host.
\<close>

definition example_Parse :: "string \<Rightarrow> url_URL option" where
  "example_Parse s =
     (if s = ''http://ex.test/'' then
        Some \<lparr>Scheme = ''http'', Host = ''ex.test'', Path = ''/'', RawQuery = [], Fragment = []\<rparr>
      else if s = ''http://ex.test/a'' then
        Some \<lparr>Scheme = ''http'', Host = ''ex.test'', Path = ''/a'', RawQuery = [], Fragment = []\<rparr>
      else if s = ''http://ex.test/a#x'' then
        Some \<lparr>Scheme = ''http'', Host = ''ex.test'', Path = ''/a'', RawQuery = [], Fragment = ''x''\<rparr>
      else if s = ''http://ex.test/a#y'' then
        Some \<lparr>Scheme = ''http'', Host = ''ex.test'', Path = ''/a'', RawQuery = [], Fragment = ''y''\<rparr>
      else if s = ''http://other.test/x'' then
        Some \<lparr>Scheme = ''http'', Host = ''other.test'', Path = ''/x'', RawQuery = [], Fragment = []\<rparr>
      else if s = ''ftp://ex.test/f'' then
        Some \<lparr>Scheme = ''ftp'', Host = ''ex.test'', Path = ''/f'', RawQuery = [], Fragment = []\<rparr>
      else if s = ''/a'' then
        Some \<lparr>Scheme = [], Host = [], Path = ''/a'', RawQuery = [], Fragment = []\<rparr>
      else if s = ''/a#x'' then
        Some \<lparr>Scheme = [], Host = [], Path = ''/a'', RawQuery = [], Fragment = ''x''\<rparr>
      else if s = ''/a#y'' then
        Some \<lparr>Scheme = [], Host = [], Path = ''/a'', RawQuery = [], Fragment = ''y''\<rparr>
      else None)"

definition example_Resolve :: "url_URL \<Rightarrow> url_URL \<Rightarrow> url_URL" where
  "example_Resolve base ref =
     (if Scheme ref \<noteq> [] then ref else ref\<lparr>Scheme := Scheme base, Host := Host base\<rparr>)"

definition example_String :: "url_URL \<Rightarrow> string" where
  "example_String u =
     Scheme u @ ''://'' @ Host u @ Path u
       @ (if RawQuery u = [] then [] else ''?'' @ RawQuery u)
       @ (if Fragment u = [] then [] else ''#'' @ Fragment u)"

text \<open>The home page answers 200 with the given links, \<^verbatim>\<open>/a\<close> answers 404, \<^verbatim>\<open>/broken\<close> has a
  body the parser fails on, the host \<^verbatim>\<open>down.test\<close> refuses the connection, and every other
  page answers 200 without links.\<close>

definition example_Get :: "string list \<Rightarrow> string \<Rightarrow> time_Duration \<times> http_result" where
  "example_Get links u =
     (if u = ''http://ex.test/'' then (1500000, Response 200 (Inr (PageInfo ''Home'' [] links)))
      else if u = ''http://ex.test/a'' then (2500000, Response 404 (Inr (PageInfo [] [] [])))
      else if u = ''http://ex.test/broken'' then (2000000, Response 200 (Inl ''unexpected EOF''))
      else if u = ''http://down.test/'' then (3000000, GetError ''connection refused'')
      else (1000000, Response 200 (Inr (PageInfo [] [] []))))"

definition example_net :: "string list \<Rightarrow> Net" where
  "example_net links =
     \<lparr>url_Parse = example_Parse, ResolveReference = example_Resolve,
      url_String = example_String, client_Get = example_Get links\<rparr>"

definition live_ctx :: Ctx where
  "live_ctx = \<lparr>outer_Done = False, ctx_Done = (\<lambda>i. False), pick_Done = (\<lambda>i. False)\<rparr>"

text \<open>The crawler that \<^verbatim>\<open>New(1, 10, d, results)\<close> returns.\<close>

definition example_crawler :: "int \<Rightarrow> Crawler" where
  "example_crawler d =
     \<lparr>workers = 1, maxDepth = d,
      rateLimiter = \<lparr>ticker = 100000000, tokens = \<lparr>buf = replicate 10 (), cap = 10\<rparr>\<rparr>,
      results = NewResults, visited = Map.empty\<rparr>"

definition example_base :: url_URL where
  "example_base = \<lparr>Scheme = ''http'', Host = ''ex.test'', Path = ''/'', RawQuery = [], Fragment = []\<rparr>"

definition full_queue :: "Job closable_chan" where
  "full_queue = \<lparr>buf = replicate 100 (Job ''http://ex.test/b'' 1), cap = 100, closed = False\<rparr>"

section \<open>Results statistics\<close>

lemma stb_add_right:
  "signed_take_bit n (a + signed_take_bit n b) = signed_take_bit n (a + b :: int)"
proof -
  have "signed_take_bit n (signed_take_bit n a + signed_take_bit n (signed_take_bit n b))
      = signed_take_bit n (a + signed_take_bit n b)"
    by (rule signed_take_bit_add)
  moreover have "signed_take_bit n (signed_take_bit n a + signed_take_bit n b)
      = signed_take_bit n (a + b)"
    by (rule signed_take_bit_add)
  ultimately show ?thesis by simp
qed

text \<open>A wrapping 64-bit sum is the exact sum reduced to the signed range.\<close>

lemma sint_sum_list:
  "sint (sum_list (ws :: 64 word list)) = signed_take_bit 63 (sum_list (map sint ws))"
proof (induction ws)
  case Nil show ?case by simp
next
  case (Cons w ws)
  have "sint (w + sum_list ws) = signed_take_bit 63 (sint w + sint (sum_list ws))"
    by (simp add: sint_word_ariths)
  also have "\<dots> = signed_take_bit 63 (sint w + sum_list (map sint ws))"
    by (simp only: Cons.IH stb_add_right)
  finally show ?case by simp
qed

lemma sint_sum_list_in_range:
  assumes "- (2 ^ 63) \<le> sum_list (map sint ws)" and "sum_list (map sint ws) < 2 ^ 63"
  shows "sint (sum_list (ws :: 64 word list)) = sum_list (map sint ws)"
  using assms by (simp add: sint_sum_list signed_take_bit_int_eq_self_iff)

lemma pages_add_pages: "pages (add_pages r ks) = pages r @ map page_of_call ks"
  unfolding add_pages_def
  by (induction ks arbitrary: r) (simp_all add: add_page_call_def AddPage_def page_of_call_def)

lemma foldl_stats_successes:
  "successes (foldl stats_step a ps) = successes a + length (filter Success ps)"
  by (induction ps arbitrary: a) (simp_all add: stats_step_def)

lemma foldl_stats_failures:
  "failures (foldl stats_step a ps) = failures a + length (filter (\<lambda>p. \<not> Success p) ps)"
  by (induction ps arbitrary: a) (simp_all add: stats_step_def)

lemma foldl_stats_totalTime:
  "totalTime (foldl stats_step a ps) = totalTime a + sum_list (map ResponseTime ps)"
  by (induction ps arbitrary: a) (simp_all add: stats_step_def add.assoc)

lemma filter_success_calls:
  "length (filter Success (map page_of_call ks)) = length (filter (\<lambda>k. call_err k = None) ks)"
  by (induction ks) (simp_all add: page_of_call_def)

lemma response_times_calls: "map ResponseTime (map page_of_call ks) = map call_time ks"
  by (induction ks) (simp_all add: page_of_call_def)

lemma success_fail_total:
  "length (filter Success ps) + length (filter (\<lambda>p. \<not> Success p) ps) = length ps"
  by (induction ps) simp_all

lemma GetStats_empty:
  "pages r = [] \<Longrightarrow> GetStats r =
     \<lparr>TotalPages = 0, UniqueLinks = 0, AvgResponseTime = 0, SuccessCount = 0, FailCount = 0,
      Duration = duration r\<rparr>"
  by (simp add: GetStats_def)

lemma GetStats_nonempty:
  "pages r \<noteq> [] \<Longrightarrow>
     TotalPages (GetStats r) = length (pages r) \<and>
     SuccessCount (GetStats r) = length (filter Success (pages r)) \<and>
     FailCount (GetStats r) = length (filter (\<lambda>p. \<not> Success p) (pages r)) \<and>
     AvgResponseTime (GetStats r) =
       real_of_int (Milliseconds (sum_list (map ResponseTime (pages r)))) / real (length (pages r))"
  by (simp add: GetStats_def Let_def foldl_stats_successes foldl_stats_failures
        foldl_stats_totalTime)

text \<open>
  Claim C10, as the code has it. After any sequence \<open>ks\<close> of \<^verbatim>\<open>AddPage\<close> calls on a fresh
  store, \<^verbatim>\<open>GetStats\<close> reports \<open>TotalPages = length ks\<close>, \<open>SuccessCount + FailCount = TotalPages\<close>
  and \<open>SuccessCount\<close> equal to the number of calls with a nil error; with no call every
  count and the average are 0. With at least one call, and when the exact total of the
  response times lies in the signed 64-bit range of nanoseconds, \<open>AvgResponseTime\<close> is
  that total truncated to whole milliseconds, divided by \<open>TotalPages\<close>. (The quotient is
  taken in the reals: the rounding of \<^verbatim>\<open>float64\<close> is not modelled.)
\<close>

theorem GetStats_invariant:
  "TotalPages (GetStats (add_pages NewResults ks)) = length ks \<and>
   SuccessCount (GetStats (add_pages NewResults ks)) + FailCount (GetStats (add_pages NewResults ks))
     = TotalPages (GetStats (add_pages NewResults ks)) \<and>
   SuccessCount (GetStats (add_pages NewResults ks)) = length (filter (\<lambda>k. call_err k = None) ks) \<and>
   (ks = [] \<longrightarrow>
      SuccessCount (GetStats (add_pages NewResults ks)) = 0 \<and>
      FailCount (GetStats (add_pages NewResults ks)) = 0 \<and>
      UniqueLinks (GetStats (add_pages NewResults ks)) = 0 \<and>
      AvgResponseTime (GetStats (add_pages NewResults ks)) = 0) \<and>
   (ks \<noteq> [] \<longrightarrow>
      - (2 ^ 63) \<le> sum_list (map (\<lambda>k. sint (call_time k)) ks) \<longrightarrow>
      sum_list (map (\<lambda>k. sint (call_time k)) ks) < 2 ^ 63 \<longrightarrow>
      AvgResponseTime (GetStats (add_pages NewResults ks)) =
        real_of_int (sum_list (map (\<lambda>k. sint (call_time k)) ks) sdiv 1000000) / real (length ks))"
proof (cases "ks = []")
  case True
  then show ?thesis
    by (simp add: GetStats_empty pages_add_pages NewResults_def)
next
  case False
  let ?r = "add_pages NewResults ks"
  have p: "pages ?r = map page_of_call ks"
    by (simp add: pages_add_pages NewResults_def)
  have ne: "pages ?r \<noteq> []" using False by (simp add: p)
  note g = GetStats_nonempty[OF ne]
  have t: "TotalPages (GetStats ?r) = length ks" using g by (simp add: p)
  have "SuccessCount (GetStats ?r) = length (filter Success (pages ?r))"
    using g by blast
  then have s: "SuccessCount (GetStats ?r) = length (filter (\<lambda>k. call_err k = None) ks)"
    by (simp only: p filter_success_calls)
  have av: "AvgResponseTime (GetStats ?r) =
       real_of_int (Milliseconds (sum_list (map call_time ks))) / real (length ks)"
    using g by (simp only: p response_times_calls length_map)
  have sf: "SuccessCount (GetStats ?r) + FailCount (GetStats ?r) = TotalPages (GetStats ?r)"
    using g success_fail_total[of "pages ?r"] by simp
  have a: "AvgResponseTime (GetStats ?r) =
        real_of_int (sum_list (map (\<lambda>k. sint (call_time k)) ks) sdiv 1000000) / real (length ks)"
    if lo: "- (2 ^ 63) \<le> sum_list (map (\<lambda>k. sint (call_time k)) ks)"
    and hi: "sum_list (map (\<lambda>k. sint (call_time k)) ks) < 2 ^ 63"
  proof -
    have m: "map sint (map call_time ks) = map (\<lambda>k. sint (call_time k)) ks"
      by (simp add: comp_def)
    have "sint (sum_list (map call_time ks)) = sum_list (map sint (map call_time ks))"
      by (rule sint_sum_list_in_range) (use lo hi in \<open>simp_all only: m\<close>)
    then show ?thesis by (simp only: av Milliseconds_def m)
  qed
  show ?thesis using False t s sf a by blast
qed

text \<open>Two calls, one successful (1.5 ms) and one failed (2.5 ms): totals 2, 1 and 1, and an
  average of 4 ms / 2; and no call at all.\<close>

theorem GetStats_invariant_witness:
  "TotalPages (GetStats (add_pages NewResults [ok_call, failed_call])) = 2 \<and>
   SuccessCount (GetStats (add_pages NewResults [ok_call, failed_call])) = 1 \<and>
   FailCount (GetStats (add_pages NewResults [ok_call, failed_call])) = 1 \<and>
   AvgResponseTime (GetStats (add_pages NewResults [ok_call, failed_call])) = 2 \<and>
   TotalPages (GetStats (add_pages NewResults [])) = 0 \<and>
   SuccessCount (GetStats (add_pages NewResults [])) = 0 \<and>
   FailCount (GetStats (add_pages NewResults [])) = 0 \<and>
   AvgResponseTime (GetStats (add_pages NewResults [])) = 0"
  using GetStats_invariant[of "[ok_call, failed_call]"] GetStats_invariant[of "[]"]
  by (simp add: ok_call_def failed_call_def signed_divide_int_def)

text \<open>
  The claim as stated fails where the nanosecond total leaves the signed 64-bit range:
  two pages of \<open>2^63 - 1\<close> ns each sum to \<open>-2\<close> ns in \<^verbatim>\<open>time.Duration\<close>, so the reported
  average is 0. It is not the sum of the response times in milliseconds divided by
  the number of pages, which is about \<open>9.2 * 10^12\<close> whether the sum is truncated as a
  whole or page by page.
\<close>

theorem GetStats_average_counterexample:
  "TotalPages (GetStats (add_pages NewResults [slow_call, slow_call])) = 2 \<and>
   AvgResponseTime (GetStats (add_pages NewResults [slow_call, slow_call])) = 0 \<and>
   AvgResponseTime (GetStats (add_pages NewResults [slow_call, slow_call])) \<noteq>
     real_of_int ((sint (call_time slow_call) + sint (call_time slow_call)) sdiv 1000000) / 2 \<and>
   AvgResponseTime (GetStats (add_pages NewResults [slow_call, slow_call])) \<noteq>
     real_of_int (Milliseconds (call_time slow_call) + Milliseconds (call_time slow_call)) / 2"
  by (simp add: GetStats_def add_pages_def add_page_call_def AddPage_def NewResults_def
      slow_call_def stats_step_def Milliseconds_def signed_divide_int_def Let_def)

section \<open>Construction and the rate limiter\<close>

lemma sdiv_second_neg: "r < 0 \<Longrightarrow> 1000000000 sdiv (r::int) \<le> 0"
  by (simp add: signed_divide_int_def sgn_if pos_imp_zdiv_nonneg_iff)

lemma sdiv_second_pos: "0 < r \<Longrightarrow> r \<le> 1000000000 \<Longrightarrow> 0 < 1000000000 sdiv (r::int)"
  by (simp add: signed_divide_int_def sgn_if pos_imp_zdiv_pos_iff)

lemma sdiv_second_big: "1000000000 < r \<Longrightarrow> 1000000000 sdiv (r::int) = 0"
  by (simp add: signed_divide_int_def sgn_if)

text \<open>The fill loop never blocks while the tokens still to send fit the buffer.\<close>

lemma fill_tokens_room:
  "length (buf (tokens rl)) + n \<le> cap (tokens rl) \<Longrightarrow>
   fill_tokens n rl = Some (rl\<lparr>tokens := (tokens rl)\<lparr>buf := buf (tokens rl) @ replicate n ()\<rparr>\<rparr>)"
proof (induction n arbitrary: rl)
  case 0
  show ?case by simp
next
  case (Suc n)
  let ?rl' = "rl\<lparr>tokens := (tokens rl)\<lparr>buf := buf (tokens rl) @ [()]\<rparr>\<rparr>"
  have s: "chan_send (tokens rl) () = Some ((tokens rl)\<lparr>buf := buf (tokens rl) @ [()]\<rparr>)"
    using Suc.prems by (simp add: chan_send_def)
  have "length (buf (tokens ?rl')) + n \<le> cap (tokens ?rl')"
    using Suc.prems by simp
  from Suc.IH[OF this] show ?case
    by (simp add: s replicate_app_Cons_same)
qed

lemma NewRateLimiter_ok:
  assumes "0 < r" "r \<le> 1000000000"
  shows "NewRateLimiter r =
     Returns \<lparr>ticker = 1000000000 sdiv r, tokens = \<lparr>buf = replicate (nat r) (), cap = nat r\<rparr>\<rparr>"
proof -
  have i: "0 < 1000000000 sdiv r" using assms by (rule sdiv_second_pos)
  have f: "fill_tokens (nat r) \<lparr>ticker = 1000000000 sdiv r, tokens = \<lparr>buf = [], cap = nat r\<rparr>\<rparr>
     = Some \<lparr>ticker = 1000000000 sdiv r, tokens = \<lparr>buf = replicate (nat r) (), cap = nat r\<rparr>\<rparr>"
    by (subst fill_tokens_room) simp_all
  show ?thesis using assms i by (simp add: NewRateLimiter_def Let_def f)
qed

lemma NewRateLimiter_zero: "NewRateLimiter 0 = Panics IntegerDivideByZero"
  by (simp add: NewRateLimiter_def)

lemma NewRateLimiter_neg: "r < 0 \<Longrightarrow> NewRateLimiter r = Panics NonPositiveTickerInterval"
  using sdiv_second_neg[of r] by (simp add: NewRateLimiter_def Let_def)

lemma NewRateLimiter_big: "1000000000 < r \<Longrightarrow> NewRateLimiter r = Panics NonPositiveTickerInterval"
  using sdiv_second_big[of r] by (simp add: NewRateLimiter_def Let_def)

lemma NewRateLimiter_Returns:
  assumes "NewRateLimiter r = Returns rl"
  shows "0 < r \<and> r \<le> 1000000000 \<and>
         rl = \<lparr>ticker = 1000000000 sdiv r, tokens = \<lparr>buf = replicate (nat r) (), cap = nat r\<rparr>\<rparr>"
proof -
  have "r \<noteq> 0" using assms NewRateLimiter_zero by auto
  moreover have "\<not> r < 0" using assms NewRateLimiter_neg[of r] by auto
  moreover have "\<not> 1000000000 < r" using assms NewRateLimiter_big[of r] by auto
  ultimately have b: "0 < r" "r \<le> 1000000000" by auto
  with assms NewRateLimiter_ok[OF b] show ?thesis by simp
qed

text \<open>
  Claim C2, as the code has it. Construction aborts with a run-time panic, before any
  worker exists, for every \<^verbatim>\<open>requestsPerSecond\<close> that is 0 (integer division by zero),
  negative or above \<open>10^9\<close> (a ticker interval that is not positive). Nothing else is
  checked: with a rate from 1 to \<open>10^9\<close> the constructor returns a crawler for every
  worker count and every maximum depth, and the queue capacity is not a parameter.
\<close>

theorem New_validation:
  "(rateLimit = 0 \<longrightarrow>
      NewRateLimiter rateLimit = Panics IntegerDivideByZero \<and>
      New w rateLimit d r = Panics IntegerDivideByZero) \<and>
   (rateLimit < 0 \<or> 1000000000 < rateLimit \<longrightarrow>
      NewRateLimiter rateLimit = Panics NonPositiveTickerInterval \<and>
      New w rateLimit d r = Panics NonPositiveTickerInterval) \<and>
   (0 < rateLimit \<and> rateLimit \<le> 1000000000 \<longrightarrow>
      New w rateLimit d r =
        Returns \<lparr>workers = w, maxDepth = d,
                 rateLimiter = \<lparr>ticker = 1000000000 sdiv rateLimit,
                                tokens = \<lparr>buf = replicate (nat rateLimit) (), cap = nat rateLimit\<rparr>\<rparr>,
                 results = r, visited = Map.empty\<rparr>)"
proof -
  have z: "rateLimit = 0 \<Longrightarrow> NewRateLimiter rateLimit = Panics IntegerDivideByZero"
    by (simp add: NewRateLimiter_zero)
  have n: "rateLimit < 0 \<or> 1000000000 < rateLimit \<Longrightarrow>
      NewRateLimiter rateLimit = Panics NonPositiveTickerInterval"
    using NewRateLimiter_neg[of rateLimit] NewRateLimiter_big[of rateLimit] by blast
  have p: "0 < rateLimit \<and> rateLimit \<le> 1000000000 \<Longrightarrow> NewRateLimiter rateLimit =
      Returns \<lparr>ticker = 1000000000 sdiv rateLimit,
               tokens = \<lparr>buf = replicate (nat rateLimit) (), cap = nat rateLimit\<rparr>\<rparr>"
    by (simp add: NewRateLimiter_ok)
  show ?thesis
    using z n p by (auto simp add: New_def)
qed

theorem New_validation_witness:
  "New 4 0 2 NewResults = Panics IntegerDivideByZero \<and>
   New 4 (- 3) 2 NewResults = Panics NonPositiveTickerInterval \<and>
   New 4 2000000000 2 NewResults = Panics NonPositiveTickerInterval \<and>
   New (- 4) 5 (- 2) NewResults =
     Returns \<lparr>workers = - 4, maxDepth = - 2,
              rateLimiter = \<lparr>ticker = 200000000, tokens = \<lparr>buf = replicate 5 (), cap = 5\<rparr>\<rparr>,
              results = NewResults, visited = Map.empty\<rparr>"
  using New_validation[of 0 4 2 NewResults] New_validation[of "- 3" 4 2 NewResults]
    New_validation[of 2000000000 4 2 NewResults] New_validation[of 5 "- 4" "- 2" NewResults]
  by (simp add: signed_divide_int_def)

text \<open>The claim as stated fails: zero workers and a negative maximum depth are accepted.\<close>

theorem New_accepts_invalid_counterexample:
  "New 0 10 (- 1) NewResults =
     Returns \<lparr>workers = 0, maxDepth = - 1,
              rateLimiter = \<lparr>ticker = 100000000, tokens = \<lparr>buf = replicate 10 (), cap = 10\<rparr>\<rparr>,
              results = NewResults, visited = Map.empty\<rparr>"
  by (simp add: New_def NewRateLimiter_ok signed_divide_int_def)

lemma refill_below:
  "token_count rl < capacity rl \<Longrightarrow>
     token_count (refill rl) = token_count rl + 1 \<and> capacity (refill rl) = capacity rl"
  by (simp add: refill_def chan_send_def token_count_def capacity_def)

lemma refill_full: "capacity rl \<le> token_count rl \<Longrightarrow> refill rl = rl"
  by (simp add: refill_def chan_send_def token_count_def capacity_def)

lemma limiter_step_bounded:
  "token_count rl \<le> capacity rl \<Longrightarrow>
     token_count (limiter_step rl ev) \<le> capacity (limiter_step rl ev) \<and>
     capacity (limiter_step rl ev) = capacity rl"
proof (cases ev)
  case RefillTick
  assume "token_count rl \<le> capacity rl"
  then show ?thesis
    using RefillTick refill_below[of rl] refill_full[of rl]
    by (cases "token_count rl < capacity rl") auto
next
  case (WaitCall d p)
  assume "token_count rl \<le> capacity rl"
  then show ?thesis
    using WaitCall
    by (auto simp add: Wait_def chan_recv_def token_count_def capacity_def split: list.splits)
qed

lemma limiter_run_bounded:
  "token_count rl \<le> capacity rl \<Longrightarrow>
     token_count (limiter_run rl evs) \<le> capacity (limiter_run rl evs) \<and>
     capacity (limiter_run rl evs) = capacity rl"
  unfolding limiter_run_def
proof (induction evs arbitrary: rl)
  case Nil
  then show ?case by simp
next
  case (Cons ev evs)
  from limiter_step_bounded[OF Cons.prems, of ev]
  have s: "token_count (limiter_step rl ev) \<le> capacity (limiter_step rl ev)"
    and c: "capacity (limiter_step rl ev) = capacity rl" by simp_all
  from Cons.IH[OF s] c show ?case by simp
qed

text \<open>
  Claim C7. A limiter that \<^verbatim>\<open>NewRateLimiter\<close> returns holds exactly \<open>capacity\<close> tokens and
  its capacity is \<^verbatim>\<open>requestsPerSecond\<close>. A refill tick adds one token when the bucket is
  below capacity and otherwise leaves the limiter as it is (the \<^verbatim>\<open>default\<close> case: no
  blocking, no error). After any sequence of refill ticks and \<^verbatim>\<open>Wait\<close> calls the token
  count is at most the capacity, which never changes.
\<close>

theorem token_bucket_invariant:
  "(NewRateLimiter requestsPerSecond = Returns rl \<longrightarrow>
      token_count rl = capacity rl \<and> int (capacity rl) = requestsPerSecond \<and>
      token_count (limiter_run rl evs) \<le> capacity (limiter_run rl evs) \<and>
      capacity (limiter_run rl evs) = capacity rl) \<and>
   (token_count l < capacity l \<longrightarrow> token_count (refill l) = token_count l + 1) \<and>
   (token_count l = capacity l \<longrightarrow> refill l = l)"
proof -
  have a: "token_count rl = capacity rl \<and> int (capacity rl) = requestsPerSecond \<and>
      token_count (limiter_run rl evs) \<le> capacity (limiter_run rl evs) \<and>
      capacity (limiter_run rl evs) = capacity rl"
    if h: "NewRateLimiter requestsPerSecond = Returns rl"
  proof -
    from NewRateLimiter_Returns[OF h]
    have full: "token_count rl = capacity rl" and c: "int (capacity rl) = requestsPerSecond"
      by (simp_all add: token_count_def capacity_def)
    from full have "token_count rl \<le> capacity rl" by simp
    from limiter_run_bounded[OF this, of evs] full c show ?thesis by simp
  qed
  show ?thesis
    using a refill_below[of l] refill_full[of l] by auto
qed

text \<open>A limiter of 2 requests per second: full at 2 tokens, two \<^verbatim>\<open>Wait\<close> calls empty it,
  three refill ticks fill it to 2 again and the third tick is dropped.\<close>

theorem token_bucket_invariant_witness:
  "NewRateLimiter 2 = Returns \<lparr>ticker = 500000000, tokens = \<lparr>buf = [(), ()], cap = 2\<rparr>\<rparr> \<and>
   token_count \<lparr>ticker = 500000000, tokens = \<lparr>buf = [(), ()], cap = 2\<rparr>\<rparr> = 2 \<and>
   token_count (limiter_run \<lparr>ticker = 500000000, tokens = \<lparr>buf = [(), ()], cap = 2\<rparr>\<rparr>
      [WaitCall False False, WaitCall False False]) = 0 \<and>
   token_count (limiter_run \<lparr>ticker = 500000000, tokens = \<lparr>buf = [(), ()], cap = 2\<rparr>\<rparr>
      [WaitCall False False, WaitCall False False, RefillTick, RefillTick, RefillTick]) = 2 \<and>
   refill \<lparr>ticker = 500000000, tokens = \<lparr>buf = [(), ()], cap = 2\<rparr>\<rparr>
     = \<lparr>ticker = 500000000, tokens = \<lparr>buf = [(), ()], cap = 2\<rparr>\<rparr> \<and>
   token_count (refill \<lparr>ticker = 500000000, tokens = \<lparr>buf = [()], cap = 2\<rparr>\<rparr>) = 2"
proof -
  have n: "NewRateLimiter 2 = Returns \<lparr>ticker = 500000000, tokens = \<lparr>buf = [(), ()], cap = 2\<rparr>\<rparr>"
    by (simp add: NewRateLimiter_ok signed_divide_int_def numeral_2_eq_2)
  show ?thesis
    using n
      token_bucket_invariant[of 2 "\<lparr>ticker = 500000000, tokens = \<lparr>buf = [(), ()], cap = 2\<rparr>\<rparr>"
        "[WaitCall False False, WaitCall False False, RefillTick, RefillTick, RefillTick]"
        "\<lparr>ticker = 500000000, tokens = \<lparr>buf = [()], cap = 2\<rparr>\<rparr>"]
      token_bucket_invariant[of 2 "\<lparr>ticker = 500000000, tokens = \<lparr>buf = [(), ()], cap = 2\<rparr>\<rparr>"
        "[WaitCall False False, WaitCall False False]"
        "\<lparr>ticker = 500000000, tokens = \<lparr>buf = [(), ()], cap = 2\<rparr>\<rparr>"]
    by (simp add: token_count_def capacity_def limiter_run_def refill_def Wait_def
        chan_send_def chan_recv_def)
qed

section \<open>The termination monitor\<close>









section \<open>The worker: queue, depth and results\<close>


lemma select_enqueue_full:
  "\<not> closed jobs \<Longrightarrow> cap jobs \<le> length (buf jobs) \<Longrightarrow>
     select_enqueue d p jobs j = (if d then CaseDone else CaseDefault, jobs)"
  by (simp add: select_enqueue_def chan_send_def)

lemma select_enqueue_closed:
  "closed jobs \<Longrightarrow>
     select_enqueue d p jobs j = (if d \<and> p then CaseDone else CaseSendPanics, jobs)"
  by (simp add: select_enqueue_def)

lemma select_enqueue_cases:
  "select_enqueue d p jobs j = (CaseSend, jobs\<lparr>buf := buf jobs @ [j]\<rparr>) \<and>
     length (buf jobs) < cap jobs \<and> \<not> closed jobs
   \<or> select_enqueue d p jobs j = (CaseDone, jobs) \<and> d
   \<or> select_enqueue d p jobs j = (CaseDefault, jobs) \<and> cap jobs \<le> length (buf jobs) \<and> \<not> d
   \<or> select_enqueue d p jobs j = (CaseSendPanics, jobs) \<and> closed jobs"
  by (simp add: select_enqueue_def chan_send_def)

lemma enqueue_links_skip:
  "\<not> (resolveURL net base link \<noteq> [] \<and> shouldCrawl net (resolveURL net base link) base) \<Longrightarrow>
     enqueue_links net ctx base depth (link # rest) i jobs
       = enqueue_links net ctx base depth rest (Suc i) jobs"
  by (auto simp add: Let_def)

lemma enqueue_links_offer:
  "resolveURL net base link \<noteq> [] \<and> shouldCrawl net (resolveURL net base link) base \<Longrightarrow>
     enqueue_links net ctx base depth (link # rest) i jobs
       = (case select_enqueue (ctx_Done ctx i) (pick_Done ctx i) jobs
                 (Job (resolveURL net base link) (depth + 1)) of
            (taken, jobs') \<Rightarrow>
              if taken = CaseDone then (Returned, jobs')
              else if taken = CaseSendPanics then (Panicked, jobs')
              else enqueue_links net ctx base depth rest (Suc i) jobs')"
  by (auto simp add: Let_def)

text \<open>A link loop that starts on a full queue, or on a closed one, sends nothing.\<close>

lemma enqueue_links_full:
  "cap jobs \<le> length (buf jobs) \<or> closed jobs \<Longrightarrow>
     snd (enqueue_links net ctx base depth links i jobs) = jobs"
proof (induction links arbitrary: i)
  case Nil
  show ?case by simp
next
  case (Cons link rest)
  show ?case
  proof (cases "resolveURL net base link \<noteq> [] \<and> shouldCrawl net (resolveURL net base link) base")
    case True
    show ?thesis
    proof (cases "closed jobs")
      case True
      show ?thesis
        using Cons.IH[OF Cons.prems]
        by (simp add: enqueue_links_offer[OF \<open>resolveURL net base link \<noteq> [] \<and>
              shouldCrawl net (resolveURL net base link) base\<close>]
            select_enqueue_closed[OF True] del: enqueue_links.simps)
    next
      case False
      with Cons.prems have f: "cap jobs \<le> length (buf jobs)" by simp
      show ?thesis
        using Cons.IH[OF Cons.prems]
        by (simp add: enqueue_links_offer[OF True] select_enqueue_full[OF False f]
            del: enqueue_links.simps)
    qed
  next
    case False
    show ?thesis
      using Cons.IH[OF Cons.prems]
      by (simp add: enqueue_links_skip[OF False] del: enqueue_links.simps)
  qed
qed

text \<open>What the link loop leaves in the queue: the old buffer followed by children one level
  below the job, within the capacity.\<close>

lemma enqueue_links_children:
  "\<exists>children.
     snd (enqueue_links net ctx base depth links i jobs) = jobs\<lparr>buf := buf jobs @ children\<rparr> \<and>
     (\<forall>ch \<in> set children. job_Depth ch = depth + 1 \<and>
        shouldCrawl net (job_URL ch) base) \<and>
     (length (buf jobs) \<le> cap jobs \<longrightarrow> length (buf jobs @ children) \<le> cap jobs)"
proof (induction links arbitrary: i jobs)
  case Nil
  show ?case by (rule exI[of _ "[]"]) simp
next
  case (Cons link rest)
  let ?child = "resolveURL net base link"
  let ?j = "Job ?child (depth + 1)"
  show ?case
  proof (cases "?child \<noteq> [] \<and> shouldCrawl net ?child base")
    case False
    show ?thesis
      using Cons.IH[of "Suc i" jobs]
      by (simp add: enqueue_links_skip[OF False] del: enqueue_links.simps)
  next
    case True
    note offer = enqueue_links_offer[OF True, of ctx depth rest i jobs]
    from select_enqueue_cases[of "ctx_Done ctx i" "pick_Done ctx i" jobs ?j]
    consider
      (isend) "select_enqueue (ctx_Done ctx i) (pick_Done ctx i) jobs ?j
                = (CaseSend, jobs\<lparr>buf := buf jobs @ [?j]\<rparr>)" "length (buf jobs) < cap jobs"
    | (idone) "select_enqueue (ctx_Done ctx i) (pick_Done ctx i) jobs ?j = (CaseDone, jobs)"
    | (idflt) "select_enqueue (ctx_Done ctx i) (pick_Done ctx i) jobs ?j = (CaseDefault, jobs)"
    | (ipanic) "select_enqueue (ctx_Done ctx i) (pick_Done ctx i) jobs ?j = (CaseSendPanics, jobs)"
      by blast
    then show ?thesis
    proof cases
      case isend
      from Cons.IH[of "Suc i" "jobs\<lparr>buf := buf jobs @ [?j]\<rparr>"]
      obtain cs where cs:
        "snd (enqueue_links net ctx base depth rest (Suc i) (jobs\<lparr>buf := buf jobs @ [?j]\<rparr>))
           = jobs\<lparr>buf := (buf jobs @ [?j]) @ cs\<rparr>"
        "\<forall>ch \<in> set cs. job_Depth ch = depth + 1 \<and> shouldCrawl net (job_URL ch) base"
        "length (buf jobs @ [?j]) \<le> cap jobs \<longrightarrow> length ((buf jobs @ [?j]) @ cs) \<le> cap jobs"
        by auto
      show ?thesis
        by (rule exI[of _ "?j # cs"]) (use True isend cs in \<open>simp add: offer del: enqueue_links.simps\<close>)
    next
      case idone
      show ?thesis
        by (rule exI[of _ "[]"]) (use idone in \<open>simp add: offer del: enqueue_links.simps\<close>)
    next
      case idflt
      show ?thesis
        using Cons.IH[of "Suc i" jobs] idflt
        by (simp add: offer del: enqueue_links.simps)
    next
      case ipanic
      show ?thesis
        by (rule exI[of _ "[]"]) (use ipanic in \<open>simp add: offer del: enqueue_links.simps\<close>)
    qed
  qed
qed

text \<open>On a queue that is open the link loop never panics.\<close>

lemma enqueue_links_open:
  "\<not> closed jobs \<Longrightarrow>
     fst (enqueue_links net ctx base depth links i jobs) \<noteq> Panicked \<and>
     \<not> closed (snd (enqueue_links net ctx base depth links i jobs))"
proof (induction links arbitrary: i jobs)
  case Nil
  then show ?case by simp
next
  case (Cons link rest)
  let ?child = "resolveURL net base link"
  let ?j = "Job ?child (depth + 1)"
  show ?case
  proof (cases "?child \<noteq> [] \<and> shouldCrawl net ?child base")
    case False
    show ?thesis
      using Cons.IH[OF Cons.prems, of "Suc i"]
      by (simp add: enqueue_links_skip[OF False] del: enqueue_links.simps)
  next
    case True
    note offer = enqueue_links_offer[OF True, of ctx depth rest i jobs]
    from select_enqueue_cases[of "ctx_Done ctx i" "pick_Done ctx i" jobs ?j] Cons.prems
    consider
      (isend) "select_enqueue (ctx_Done ctx i) (pick_Done ctx i) jobs ?j
                = (CaseSend, jobs\<lparr>buf := buf jobs @ [?j]\<rparr>)"
    | (idone) "select_enqueue (ctx_Done ctx i) (pick_Done ctx i) jobs ?j = (CaseDone, jobs)"
    | (idflt) "select_enqueue (ctx_Done ctx i) (pick_Done ctx i) jobs ?j = (CaseDefault, jobs)"
      by blast
    then show ?thesis
    proof cases
      case isend
      have "\<not> closed (jobs\<lparr>buf := buf jobs @ [?j]\<rparr>)" using Cons.prems by simp
      from Cons.IH[OF this, of "Suc i"] show ?thesis
        using isend by (simp add: offer del: enqueue_links.simps)
    next
      case idone
      show ?thesis
        using idone Cons.prems by (simp add: offer del: enqueue_links.simps)
    next
      case idflt
      show ?thesis
        using Cons.IH[OF Cons.prems, of "Suc i"] idflt
        by (simp add: offer del: enqueue_links.simps)
    qed
  qed
qed

text \<open>
  Backpressure on an open queue. The job queue of a crawl has capacity 100 and starts
  open. When an open queue holds as many jobs as its capacity, the \<^verbatim>\<open>select\<close> that
  offers a child job takes the \<^verbatim>\<open>default\<close> case at once (or \<^verbatim>\<open>ctx.Done()\<close>, when the run is
  cancelled) and leaves the queue as it is, and so does the whole loop over the links
  of a page, which does not panic. From a queue within its capacity the loop never
  leaves one above it.
\<close>

lemma backpressure_open_queue:
  "cap (Crawl_jobs startURL) = 100 \<and> \<not> closed (Crawl_jobs startURL) \<and>
   (\<not> closed jobs \<and> length (buf jobs) = cap jobs \<longrightarrow>
      select_enqueue ctx_done pick_done jobs job = (if ctx_done then CaseDone else CaseDefault, jobs) \<and>
      fst (enqueue_links net ctx base depth links i jobs) \<noteq> Panicked \<and>
      snd (enqueue_links net ctx base depth links i jobs) = jobs) \<and>
   (length (buf jobs) \<le> cap jobs \<longrightarrow>
      length (buf (snd (enqueue_links net ctx base depth links i jobs))) \<le> cap jobs \<and>
      cap (snd (enqueue_links net ctx base depth links i jobs)) = cap jobs)"
proof -
  obtain cs where cs:
     "snd (enqueue_links net ctx base depth links i jobs) = jobs\<lparr>buf := buf jobs @ cs\<rparr>"
     "length (buf jobs) \<le> cap jobs \<longrightarrow> length (buf jobs @ cs) \<le> cap jobs"
    using enqueue_links_children[of net ctx base depth links i jobs] by blast
  show ?thesis
    using select_enqueue_full[of jobs ctx_done pick_done job]
      enqueue_links_full[of jobs net ctx base depth links i]
      enqueue_links_open[of jobs net ctx base depth links i] cs
    by (simp add: Crawl_jobs_def)
qed

text \<open>An open queue of 100 jobs and the in-scope link \<^verbatim>\<open>/a\<close>: the link is dropped and the
  queue is unchanged, while an empty queue takes the child job.\<close>

lemma backpressure_open_queue_example:
  "length (buf full_queue) = cap full_queue \<and> \<not> closed full_queue \<and>
   shouldCrawl (example_net []) (resolveURL (example_net []) example_base ''/a'') example_base \<and>
   select_enqueue False False full_queue (Job ''http://ex.test/a'' 1) = (CaseDefault, full_queue) \<and>
   enqueue_links (example_net []) live_ctx example_base 0 [''/a''] 0 full_queue
     = (Running, full_queue) \<and>
   enqueue_links (example_net []) live_ctx example_base 0 [''/a''] 0
       \<lparr>buf = [], cap = 100, closed = False\<rparr>
     = (Running, \<lparr>buf = [Job ''http://ex.test/a'' 1], cap = 100, closed = False\<rparr>)"
  by (simp add: full_queue_def example_net_def live_ctx_def example_base_def resolveURL_def
      shouldCrawl_def example_Parse_def example_Resolve_def example_String_def
      select_enqueue_def chan_send_def Let_def)

text \<open>On a closed queue the first in-scope link makes the worker panic, unless the run
  is cancelled and the \<^verbatim>\<open>select\<close> picks \<^verbatim>\<open>ctx.Done()\<close>.\<close>

lemma enqueue_links_closed_panics:
  "closed jobs \<Longrightarrow> \<not> (ctx_Done ctx i \<and> pick_Done ctx i) \<Longrightarrow>
   resolveURL net base link \<noteq> [] \<and> shouldCrawl net (resolveURL net base link) base \<Longrightarrow>
     enqueue_links net ctx base depth (link # rest) i jobs = (Panicked, jobs)"
  by (simp add: enqueue_links_offer select_enqueue_closed del: enqueue_links.simps)


lemma pages_AddPage:
  "pages (AddPage r url title description links d err) =
     pages r @ [\<lparr>URL = url, Title = title, Description = description, Links = links,
                 ResponseTime = d, Success = (err = None),
                 Error = (case err of None \<Rightarrow> [] | Some text \<Rightarrow> text)\<rparr>]"
  by (simp add: AddPage_def)

lemma worker_body_visited:
  "isVisited c (job_URL job) \<Longrightarrow> worker_body net ctx c jobs job = (Running, c, jobs)"
  by (simp add: worker_body_def)

lemma worker_body_GetError:
  "\<not> isVisited c (job_URL job) \<Longrightarrow> client_Get net (job_URL job) = (d, GetError e) \<Longrightarrow>
     worker_body net ctx c jobs job =
       (Running,
        (markVisited c (job_URL job))
          \<lparr>results := AddPage (results c) (job_URL job) [] [] [] d (Some e)\<rparr>,
        jobs)"
  by (simp add: worker_body_def Let_def markVisited_def)

lemma worker_body_status:
  "\<not> isVisited c (job_URL job) \<Longrightarrow> client_Get net (job_URL job) = (d, Response code parsed) \<Longrightarrow>
   code \<noteq> 200 \<Longrightarrow>
     worker_body net ctx c jobs job =
       (Running,
        (markVisited c (job_URL job))
          \<lparr>results := AddPage (results c) (job_URL job) [] [] [] d (Some (''status '' @ fmt_d code))\<rparr>,
        jobs)"
  by (simp add: worker_body_def Let_def markVisited_def)

lemma worker_body_parse_error:
  "\<not> isVisited c (job_URL job) \<Longrightarrow> client_Get net (job_URL job) = (d, Response 200 (Inl e)) \<Longrightarrow>
     worker_body net ctx c jobs job =
       (Running,
        (markVisited c (job_URL job))
          \<lparr>results := AddPage (results c) (job_URL job) [] [] [] d (Some e)\<rparr>,
        jobs)"
  by (simp add: worker_body_def Let_def markVisited_def)

lemma worker_body_success:
  "\<not> isVisited c (job_URL job) \<Longrightarrow> client_Get net (job_URL job) = (d, Response 200 (Inr info)) \<Longrightarrow>
     worker_body net ctx c jobs job =
       (let c2 = (markVisited c (job_URL job))
                   \<lparr>results := AddPage (results c) (job_URL job) (info_Title info)
                                  (info_Description info) (info_Links info) d None\<rparr>
        in if job_Depth job < maxDepth c then
             (case url_Parse net (job_URL job) of
                None \<Rightarrow>
                  (if list_all (\<lambda>link. url_Parse net link = None) (info_Links info)
                   then Running else Panicked, c2, jobs)
              | Some baseURL \<Rightarrow>
                  (fst (enqueue_links net ctx baseURL (job_Depth job) (info_Links info) 0 jobs), c2,
                   snd (enqueue_links net ctx baseURL (job_Depth job) (info_Links info) 0 jobs)))
           else (Running, c2, jobs))"
  by (simp add: worker_body_def Let_def markVisited_def split: option.splits prod.splits)

text \<open>Every pass is one of the cases above.\<close>

lemma worker_body_cases:
  obtains (skip) "isVisited c (job_URL job)"
  | (get_error) d e where "\<not> isVisited c (job_URL job)" "client_Get net (job_URL job) = (d, GetError e)"
  | (bad_status) d code parsed where "\<not> isVisited c (job_URL job)"
      "client_Get net (job_URL job) = (d, Response code parsed)" "code \<noteq> 200"
  | (parse_error) d e where "\<not> isVisited c (job_URL job)"
      "client_Get net (job_URL job) = (d, Response 200 (Inl e))"
  | (success) d info where "\<not> isVisited c (job_URL job)"
      "client_Get net (job_URL job) = (d, Response 200 (Inr info))"
proof (cases "isVisited c (job_URL job)")
  case True
  then show ?thesis by (rule skip)
next
  case False
  obtain d r where g: "client_Get net (job_URL job) = (d, r)" by (cases "client_Get net (job_URL job)")
  show ?thesis
  proof (cases r)
    case (GetError e)
    with False g show ?thesis by (auto intro: get_error)
  next
    case (Response code parsed)
    show ?thesis
    proof (cases "code = 200")
      case False
      with \<open>\<not> isVisited c (job_URL job)\<close> g Response show ?thesis by (auto intro: bad_status)
    next
      case True
      with \<open>\<not> isVisited c (job_URL job)\<close> g Response show ?thesis
        by (cases parsed) (auto intro: parse_error success)
    qed
  qed
qed

text \<open>A pass keeps the configuration, appends children one level down to the queue (none
  unless the job's depth is below the maximum depth) and appends at most one page, for
  its job.\<close>

lemma no_children:
  "\<exists>children. (jobs :: Job closable_chan) = jobs\<lparr>buf := buf jobs @ children\<rparr> \<and>
        (\<forall>ch \<in> set children. P ch) \<and> (children \<noteq> [] \<longrightarrow> b)"
  by (rule exI[of _ "[]"]) simp

lemma worker_body_effect:
  assumes "worker_body net ctx c jobs job = (st, c', jobs')"
  shows "maxDepth c' = maxDepth c \<and>
     (\<exists>children. jobs' = jobs\<lparr>buf := buf jobs @ children\<rparr> \<and>
        (\<forall>ch \<in> set children. job_Depth ch = job_Depth job + 1 \<and>
           (\<exists>base. url_Parse net (job_URL job) = Some base \<and>
              shouldCrawl net (job_URL ch) base)) \<and>
        (children \<noteq> [] \<longrightarrow> job_Depth job < maxDepth c)) \<and>
     (pages (results c') = pages (results c) \<or>
      (\<exists>p. pages (results c') = pages (results c) @ [p] \<and> URL p = job_URL job))"
proof (cases rule: worker_body_cases[where c=c and job=job and net=net])
  case skip
  with assms no_children[of jobs "\<lambda>ch. job_Depth ch = job_Depth job + 1 \<and>
           (\<exists>base. url_Parse net (job_URL job) = Some base \<and> shouldCrawl net (job_URL ch) base)"
      "job_Depth job < maxDepth c"]
  show ?thesis by (simp add: worker_body_visited)
next
  case (get_error d e)
  with assms no_children[of jobs "\<lambda>ch. job_Depth ch = job_Depth job + 1 \<and>
           (\<exists>base. url_Parse net (job_URL job) = Some base \<and> shouldCrawl net (job_URL ch) base)"
      "job_Depth job < maxDepth c"]
  show ?thesis
    by (auto simp add: worker_body_GetError markVisited_def pages_AddPage)
next
  case (bad_status d code parsed)
  with assms no_children[of jobs "\<lambda>ch. job_Depth ch = job_Depth job + 1 \<and>
           (\<exists>base. url_Parse net (job_URL job) = Some base \<and> shouldCrawl net (job_URL ch) base)"
      "job_Depth job < maxDepth c"]
  show ?thesis
    by (auto simp add: worker_body_status markVisited_def pages_AddPage)
next
  case (parse_error d e)
  with assms no_children[of jobs "\<lambda>ch. job_Depth ch = job_Depth job + 1 \<and>
           (\<exists>base. url_Parse net (job_URL job) = Some base \<and> shouldCrawl net (job_URL ch) base)"
      "job_Depth job < maxDepth c"]
  show ?thesis
    by (auto simp add: worker_body_parse_error markVisited_def pages_AddPage)
next
  case (success d info)
  note wb = worker_body_success[OF success, of ctx jobs]
  show ?thesis
  proof (cases "job_Depth job < maxDepth c")
    case False
    with assms wb no_children[of jobs "\<lambda>ch. job_Depth ch = job_Depth job + 1 \<and>
           (\<exists>base. url_Parse net (job_URL job) = Some base \<and> shouldCrawl net (job_URL ch) base)"
      "job_Depth job < maxDepth c"]
    show ?thesis
      by (auto simp add: Let_def markVisited_def pages_AddPage)
  next
    case True
    show ?thesis
    proof (cases "url_Parse net (job_URL job)")
      case None
      with True assms wb no_children[of jobs "\<lambda>ch. job_Depth ch = job_Depth job + 1 \<and>
           (\<exists>base. url_Parse net (job_URL job) = Some base \<and> shouldCrawl net (job_URL ch) base)"
      "job_Depth job < maxDepth c"]
      show ?thesis
        by (auto simp add: Let_def markVisited_def pages_AddPage)
    next
      case (Some base)
      obtain cs where cs:
        "snd (enqueue_links net ctx base (job_Depth job) (info_Links info) 0 jobs)
           = jobs\<lparr>buf := buf jobs @ cs\<rparr>"
        "\<forall>ch \<in> set cs. job_Depth ch = job_Depth job + 1 \<and> shouldCrawl net (job_URL ch) base"
        using enqueue_links_children[of net ctx base "job_Depth job" "info_Links info" 0 jobs]
        by blast
      from Some True assms wb
      have j: "jobs' = snd (enqueue_links net ctx base (job_Depth job) (info_Links info) 0 jobs)"
        and c: "c' = (markVisited c (job_URL job))
                   \<lparr>results := AddPage (results c) (job_URL job) (info_Title info)
                                  (info_Description info) (info_Links info) d None\<rparr>"
        by (simp_all add: Let_def)
      have "\<exists>children. jobs' = jobs\<lparr>buf := buf jobs @ children\<rparr> \<and>
        (\<forall>ch \<in> set children. job_Depth ch = job_Depth job + 1 \<and>
           (\<exists>base. url_Parse net (job_URL job) = Some base \<and>
              shouldCrawl net (job_URL ch) base)) \<and>
        (children \<noteq> [] \<longrightarrow> job_Depth job < maxDepth c)"
        using cs j True Some by blast
      then show ?thesis
        by (simp add: c markVisited_def pages_AddPage)
    qed
  qed
qed

lemma worker_body_no_enqueue:
  "\<not> job_Depth job < maxDepth c \<Longrightarrow> snd (snd (worker_body net ctx c jobs job)) = jobs"
proof -
  assume d: "\<not> job_Depth job < maxDepth c"
  obtain st c' jobs' where w: "worker_body net ctx c jobs job = (st, c', jobs')"
    by (cases "worker_body net ctx c jobs job")
  from worker_body_effect[OF w] d obtain cs where
    "jobs' = jobs\<lparr>buf := buf jobs @ cs\<rparr>" "cs = []" by blast
  with w show ?thesis by simp
qed

lemma worker_jobs_depth:
  "\<forall>j \<in> set (buf jobs). job_Depth j \<le> maxDepth c \<Longrightarrow>
   \<forall>j \<in> set (worker_jobs net ctxs c jobs). job_Depth j \<le> maxDepth c"
proof (induction ctxs arbitrary: c jobs)
  case Nil
  show ?case by simp
next
  case (Cons ctx ctxs)
  show ?case
  proof (cases "outer_Done ctx")
    case True
    then show ?thesis by simp
  next
    case False
    show ?thesis
    proof (cases "buf jobs")
      case Nil
      with False show ?thesis by (simp add: chan_recv_def)
    next
      case (Cons job rest)
      let ?jobs1 = "jobs\<lparr>buf := rest\<rparr>"
      obtain st c' jobs' where w: "worker_body net ctx c ?jobs1 job = (st, c', jobs')"
        by (cases "worker_body net ctx c ?jobs1 job")
      from worker_body_effect[OF w] obtain cs where e:
        "maxDepth c' = maxDepth c" "jobs' = ?jobs1\<lparr>buf := buf ?jobs1 @ cs\<rparr>"
        "\<forall>ch \<in> set cs. job_Depth ch = job_Depth job + 1"
        "cs \<noteq> [] \<longrightarrow> job_Depth job < maxDepth c" by blast
      have jd: "job_Depth job \<le> maxDepth c" using Cons.prems Cons by simp
      have "\<forall>j \<in> set (buf jobs'). job_Depth j \<le> maxDepth c'"
        using e Cons.prems Cons by auto
      from Cons.IH[OF this] e(1)
      have ih: "\<forall>j \<in> set (worker_jobs net ctxs c' jobs'). job_Depth j \<le> maxDepth c" by simp
      show ?thesis
        using False Cons w ih jd by (simp add: chan_recv_def)
    qed
  qed
qed

text \<open>
  Claim C6, as the code has it. A pass for a job whose depth is not below \<^verbatim>\<open>maxDepth\<close>
  (so also one at depth \<^verbatim>\<open>maxDepth\<close>) leaves the queue unchanged; whatever a pass adds to
  the queue are child jobs of depth one more than the job's; a pass appends at most
  one page, and that page is for its own job. When \<^verbatim>\<open>maxDepth\<close> is not negative, every
  job that a crawl started from the seed ever receives has a depth of at most
  \<^verbatim>\<open>maxDepth\<close>, so no page is produced for a deeper job.
\<close>

theorem depth_bound:
  "(\<not> job_Depth job < maxDepth c \<longrightarrow> snd (snd (worker_body net ctx c jobs job)) = jobs) \<and>
   (\<exists>children.
      snd (snd (worker_body net ctx c jobs job)) = jobs\<lparr>buf := buf jobs @ children\<rparr> \<and>
      (\<forall>ch \<in> set children. job_Depth ch = job_Depth job + 1)) \<and>
   (pages (results (fst (snd (worker_body net ctx c jobs job)))) = pages (results c) \<or>
    (\<exists>p. pages (results (fst (snd (worker_body net ctx c jobs job)))) = pages (results c) @ [p] \<and>
         URL p = job_URL job)) \<and>
   (0 \<le> maxDepth c \<longrightarrow>
      (\<forall>j \<in> set (worker_jobs net ctxs c (Crawl_jobs startURL)). job_Depth j \<le> maxDepth c))"
proof -
  obtain st c' jobs' where w: "worker_body net ctx c jobs job = (st, c', jobs')"
    by (cases "worker_body net ctx c jobs job")
  have d: "0 \<le> maxDepth c \<Longrightarrow>
      \<forall>j \<in> set (worker_jobs net ctxs c (Crawl_jobs startURL)). job_Depth j \<le> maxDepth c"
    by (rule worker_jobs_depth) (simp add: Crawl_jobs_def)
  show ?thesis
    using worker_body_effect[OF w] worker_body_no_enqueue[of job c net ctx jobs] d
    by (auto simp add: w)
qed


text \<open>The definitions to unfold when an example is evaluated.\<close>

lemmas example_defs =
  example_net_def live_ctx_def example_crawler_def example_Parse_def example_Resolve_def
  example_String_def example_Get_def Crawl_jobs_def

lemmas worker_defs =
  worker_body_def isVisited_def markVisited_def resolveURL_def shouldCrawl_def
  select_enqueue_def chan_send_def chan_recv_def AddPage_def NewResults_def Let_def

text \<open>With \<^verbatim>\<open>maxDepth = 1\<close>: the home page at depth 1 enqueues nothing, at depth 0 it
  enqueues \<^verbatim>\<open>/a\<close> at depth 1 (the link to another host is not queued), and the crawl
  receives the seed and that child.\<close>

theorem depth_bound_witness:
  "snd (snd (worker_body (example_net [''/a'', ''http://other.test/x'']) live_ctx (example_crawler 1)
       \<lparr>buf = [], cap = 100, closed = False\<rparr> (Job ''http://ex.test/'' 1))) = \<lparr>buf = [], cap = 100, closed = False\<rparr> \<and>
   snd (snd (worker_body (example_net [''/a'', ''http://other.test/x'']) live_ctx (example_crawler 1)
       \<lparr>buf = [], cap = 100, closed = False\<rparr> (Job ''http://ex.test/'' 0)))
     = \<lparr>buf = [Job ''http://ex.test/a'' 1], cap = 100, closed = False\<rparr> \<and>
   worker_jobs (example_net [''/a'', ''http://other.test/x'']) [live_ctx, live_ctx, live_ctx]
       (example_crawler 1) (Crawl_jobs ''http://ex.test/'')
     = [Job ''http://ex.test/'' 0, Job ''http://ex.test/a'' 1] \<and>
   job_Depth (Job ''http://ex.test/a'' 1) \<le> maxDepth (example_crawler 1)"
proof -
  let ?net = "example_net [''/a'', ''http://other.test/x'']"
  have a: "snd (snd (worker_body ?net live_ctx (example_crawler 1)
       \<lparr>buf = [], cap = 100, closed = False\<rparr> (Job ''http://ex.test/'' 0)))
     = \<lparr>buf = [Job ''http://ex.test/a'' 1], cap = 100, closed = False\<rparr>"
    by (simp add: example_defs worker_defs)
  have b: "worker_jobs ?net [live_ctx, live_ctx, live_ctx]
       (example_crawler 1) (Crawl_jobs ''http://ex.test/'')
     = [Job ''http://ex.test/'' 0, Job ''http://ex.test/a'' 1]"
    by (simp add: example_defs worker_defs)
  have c: "0 \<le> maxDepth (example_crawler 1)" "\<not> 1 < maxDepth (example_crawler 1)"
    by (simp_all add: example_crawler_def)
  from depth_bound[of "Job ''http://ex.test/'' 1" "example_crawler 1" ?net live_ctx
      "\<lparr>buf = [], cap = 100, closed = False\<rparr>" "[live_ctx, live_ctx, live_ctx]" "''http://ex.test/''"] c
  have d: "snd (snd (worker_body ?net live_ctx (example_crawler 1)
       \<lparr>buf = [], cap = 100, closed = False\<rparr> (Job ''http://ex.test/'' 1))) = \<lparr>buf = [], cap = 100, closed = False\<rparr>"
    and e: "\<forall>j \<in> set (worker_jobs ?net [live_ctx, live_ctx, live_ctx]
       (example_crawler 1) (Crawl_jobs ''http://ex.test/'')). job_Depth j \<le> maxDepth (example_crawler 1)"
    by simp_all
  from e have f: "job_Depth (Job ''http://ex.test/a'' 1) \<le> maxDepth (example_crawler 1)"
    unfolding b by simp
  show ?thesis using a b d f by simp
qed

text \<open>The claim as stated fails for a negative \<^verbatim>\<open>maxDepth\<close>, which \<^verbatim>\<open>New\<close> accepts: the
  seed job, at depth 0, is above \<^verbatim>\<open>maxDepth = -1\<close> and is fetched and recorded all the
  same.\<close>

theorem depth_bound_counterexample:
  "New 1 10 (- 1) NewResults = Returns (example_crawler (- 1)) \<and>
   maxDepth (example_crawler (- 1)) < job_Depth (Job ''http://ex.test/'' 0) \<and>
   worker_jobs (example_net []) [live_ctx] (example_crawler (- 1)) (Crawl_jobs ''http://ex.test/'')
     = [Job ''http://ex.test/'' 0] \<and>
   map URL (pages (results (fst (snd
       (worker (example_net []) [live_ctx] (example_crawler (- 1)) (Crawl_jobs ''http://ex.test/''))))))
     = [''http://ex.test/'']"
  by (simp add: example_defs worker_defs New_def NewRateLimiter_ok signed_divide_int_def)


text \<open>A pass that ends with \<^verbatim>\<open>continue\<close> hands over to the next pass of the loop.\<close>

lemma worker_step:
  "\<not> outer_Done ctx \<Longrightarrow> worker_body net ctx c jobs job = (Running, c', jobs') \<Longrightarrow>
     worker net (ctx # ctxs) c (jobs\<lparr>buf := job # buf jobs\<rparr>) = worker net ctxs c' jobs'"
  by (simp add: chan_recv_def)

text \<open>
  Claim C8. For a job whose URL is not yet visited: when the fetch fails, by an error
  of \<^verbatim>\<open>Get\<close>, by a status other than 200 (the text is \<^verbatim>\<open>status\<close> and the code) or by an
  error of the parser, the pass appends exactly one page with \<^verbatim>\<open>Success = false\<close> and the
  error text in \<^verbatim>\<open>Error\<close>, leaves the queue as it is, and the worker goes on with the
  next job of its loop; when the fetch succeeds the pass appends exactly one page with
  \<^verbatim>\<open>Success = true\<close> and the parsed title, description and links.
\<close>

theorem fetch_outcome_recorded:
  "(\<not> isVisited c (job_URL job) \<and>
    (client_Get net (job_URL job) = (d, GetError e) \<or>
     (\<exists>code parsed. client_Get net (job_URL job) = (d, Response code parsed) \<and> code \<noteq> 200 \<and>
        e = ''status '' @ fmt_d code) \<or>
     client_Get net (job_URL job) = (d, Response 200 (Inl e))) \<longrightarrow>
      fst (worker_body net ctx c jobs job) = Running \<and>
      snd (snd (worker_body net ctx c jobs job)) = jobs \<and>
      pages (results (fst (snd (worker_body net ctx c jobs job)))) =
        pages (results c) @
          [\<lparr>URL = job_URL job, Title = [], Description = [], Links = [], ResponseTime = d,
            Success = False, Error = e\<rparr>] \<and>
      (\<not> outer_Done ctx \<longrightarrow>
         worker net (ctx # ctxs) c (jobs\<lparr>buf := job # buf jobs\<rparr>) =
           worker net ctxs (fst (snd (worker_body net ctx c jobs job))) jobs)) \<and>
   (\<not> isVisited c (job_URL job) \<and> client_Get net (job_URL job) = (d, Response 200 (Inr info)) \<longrightarrow>
      pages (results (fst (snd (worker_body net ctx c jobs job)))) =
        pages (results c) @
          [\<lparr>URL = job_URL job, Title = info_Title info, Description = info_Description info,
            Links = info_Links info, ResponseTime = d, Success = True, Error = []\<rparr>])"
proof -
  let ?failed = "(markVisited c (job_URL job))
          \<lparr>results := AddPage (results c) (job_URL job) [] [] [] d (Some e)\<rparr>"
  have fail: "worker_body net ctx c jobs job = (Running, ?failed, jobs)"
    if v: "\<not> isVisited c (job_URL job)"
    and g: "client_Get net (job_URL job) = (d, GetError e) \<or>
     (\<exists>code parsed. client_Get net (job_URL job) = (d, Response code parsed) \<and> code \<noteq> 200 \<and>
        e = ''status '' @ fmt_d code) \<or>
     client_Get net (job_URL job) = (d, Response 200 (Inl e))"
    using g worker_body_GetError[OF v, of net d e ctx jobs]
      worker_body_status[OF v, of net d _ _ ctx jobs]
      worker_body_parse_error[OF v, of net d e ctx jobs]
    by auto
  have a: "fst (worker_body net ctx c jobs job) = Running \<and>
      snd (snd (worker_body net ctx c jobs job)) = jobs \<and>
      pages (results (fst (snd (worker_body net ctx c jobs job)))) =
        pages (results c) @
          [\<lparr>URL = job_URL job, Title = [], Description = [], Links = [], ResponseTime = d,
            Success = False, Error = e\<rparr>] \<and>
      (\<not> outer_Done ctx \<longrightarrow>
         worker net (ctx # ctxs) c (jobs\<lparr>buf := job # buf jobs\<rparr>) =
           worker net ctxs (fst (snd (worker_body net ctx c jobs job))) jobs)"
    if v: "\<not> isVisited c (job_URL job)"
    and g: "client_Get net (job_URL job) = (d, GetError e) \<or>
     (\<exists>code parsed. client_Get net (job_URL job) = (d, Response code parsed) \<and> code \<noteq> 200 \<and>
        e = ''status '' @ fmt_d code) \<or>
     client_Get net (job_URL job) = (d, Response 200 (Inl e))"
    using worker_step[of ctx net c jobs job ?failed jobs ctxs]
    by (simp add: fail[OF v g] pages_AddPage markVisited_def)
  have b: "pages (results (fst (snd (worker_body net ctx c jobs job)))) =
        pages (results c) @
          [\<lparr>URL = job_URL job, Title = info_Title info, Description = info_Description info,
            Links = info_Links info, ResponseTime = d, Success = True, Error = []\<rparr>]"
    if v: "\<not> isVisited c (job_URL job)"
    and g: "client_Get net (job_URL job) = (d, Response 200 (Inr info))"
    by (simp add: worker_body_success[OF v g] Let_def pages_AddPage markVisited_def
        split: option.splits)
  show ?thesis using a b by blast
qed

text \<open>The page answering 404, the host refusing the connection, the page with the broken
  body and the home page; and a worker that meets two failures and still fetches the
  third job.\<close>

theorem fetch_outcome_recorded_witness:
  "pages (results (fst (snd (worker_body (example_net []) live_ctx (example_crawler 0)
       \<lparr>buf = [], cap = 100, closed = False\<rparr> (Job ''http://ex.test/a'' 0))))) =
     [\<lparr>URL = ''http://ex.test/a'', Title = [], Description = [], Links = [],
       ResponseTime = 2500000, Success = False, Error = ''status 404''\<rparr>] \<and>
   pages (results (fst (snd (worker_body (example_net []) live_ctx (example_crawler 0)
       \<lparr>buf = [], cap = 100, closed = False\<rparr> (Job ''http://down.test/'' 0))))) =
     [\<lparr>URL = ''http://down.test/'', Title = [], Description = [], Links = [],
       ResponseTime = 3000000, Success = False, Error = ''connection refused''\<rparr>] \<and>
   pages (results (fst (snd (worker_body (example_net []) live_ctx (example_crawler 0)
       \<lparr>buf = [], cap = 100, closed = False\<rparr> (Job ''http://ex.test/broken'' 0))))) =
     [\<lparr>URL = ''http://ex.test/broken'', Title = [], Description = [], Links = [],
       ResponseTime = 2000000, Success = False, Error = ''unexpected EOF''\<rparr>] \<and>
   pages (results (fst (snd (worker_body (example_net []) live_ctx (example_crawler 0)
       \<lparr>buf = [], cap = 100, closed = False\<rparr> (Job ''http://ex.test/'' 0))))) =
     [\<lparr>URL = ''http://ex.test/'', Title = ''Home'', Description = [], Links = [],
       ResponseTime = 1500000, Success = True, Error = []\<rparr>] \<and>
   map Error (pages (results (fst (snd (worker (example_net []) [live_ctx, live_ctx, live_ctx]
       (example_crawler 0)
       \<lparr>buf = [Job ''http://ex.test/a'' 0, Job ''http://down.test/'' 0, Job ''http://ex.test/'' 0],
         cap = 100, closed = False\<rparr>))))) = [''status 404'', ''connection refused'', []]"
proof -
  have v: "\<not> isVisited (example_crawler 0) u" for u
    by (simp add: isVisited_def example_crawler_def)
  have p: "pages (results (example_crawler 0)) = []"
    by (simp add: example_crawler_def NewResults_def)
  have g: "client_Get (example_net []) ''http://ex.test/a'' = (2500000, Response 404 (Inr (PageInfo [] [] [])))"
    "client_Get (example_net []) ''http://down.test/'' = (3000000, GetError ''connection refused'')"
    "client_Get (example_net []) ''http://ex.test/broken'' = (2000000, Response 200 (Inl ''unexpected EOF''))"
    "client_Get (example_net []) ''http://ex.test/'' = (1500000, Response 200 (Inr (PageInfo ''Home'' [] [])))"
    by (simp_all add: example_net_def example_Get_def)
  have s: "fmt_d 404 = ''404''"
    by (simp add: fmt_d_def decimal.simps)
  have r: "map Error (pages (results (fst (snd (worker (example_net []) [live_ctx, live_ctx, live_ctx]
       (example_crawler 0)
       \<lparr>buf = [Job ''http://ex.test/a'' 0, Job ''http://down.test/'' 0, Job ''http://ex.test/'' 0],
         cap = 100, closed = False\<rparr>))))) = [''status 404'', ''connection refused'', []]"
    by (simp add: example_defs worker_defs fmt_d_def decimal.simps)
  have a: "pages (results (fst (snd (worker_body (example_net []) live_ctx (example_crawler 0)
       \<lparr>buf = [], cap = 100, closed = False\<rparr> (Job ''http://ex.test/a'' 0))))) =
     [\<lparr>URL = ''http://ex.test/a'', Title = [], Description = [], Links = [],
       ResponseTime = 2500000, Success = False, Error = ''status 404''\<rparr>]"
    using fetch_outcome_recorded[of "example_crawler 0" "Job ''http://ex.test/a'' 0" "example_net []"
        2500000 "''status 404''" live_ctx "\<lparr>buf = [], cap = 100, closed = False\<rparr>" "[]" "PageInfo [] [] []"]
    by (simp add: v p g s)
  have b: "pages (results (fst (snd (worker_body (example_net []) live_ctx (example_crawler 0)
       \<lparr>buf = [], cap = 100, closed = False\<rparr> (Job ''http://down.test/'' 0))))) =
     [\<lparr>URL = ''http://down.test/'', Title = [], Description = [], Links = [],
       ResponseTime = 3000000, Success = False, Error = ''connection refused''\<rparr>]"
    using fetch_outcome_recorded[of "example_crawler 0" "Job ''http://down.test/'' 0" "example_net []"
        3000000 "''connection refused''" live_ctx "\<lparr>buf = [], cap = 100, closed = False\<rparr>" "[]" "PageInfo [] [] []"]
    by (simp add: v p g)
  have c: "pages (results (fst (snd (worker_body (example_net []) live_ctx (example_crawler 0)
       \<lparr>buf = [], cap = 100, closed = False\<rparr> (Job ''http://ex.test/broken'' 0))))) =
     [\<lparr>URL = ''http://ex.test/broken'', Title = [], Description = [], Links = [],
       ResponseTime = 2000000, Success = False, Error = ''unexpected EOF''\<rparr>]"
    using fetch_outcome_recorded[of "example_crawler 0" "Job ''http://ex.test/broken'' 0" "example_net []"
        2000000 "''unexpected EOF''" live_ctx "\<lparr>buf = [], cap = 100, closed = False\<rparr>" "[]" "PageInfo [] [] []"]
    by (simp add: v p g)
  have d: "pages (results (fst (snd (worker_body (example_net []) live_ctx (example_crawler 0)
       \<lparr>buf = [], cap = 100, closed = False\<rparr> (Job ''http://ex.test/'' 0))))) =
     [\<lparr>URL = ''http://ex.test/'', Title = ''Home'', Description = [], Links = [],
       ResponseTime = 1500000, Success = True, Error = []\<rparr>]"
    using fetch_outcome_recorded[of "example_crawler 0" "Job ''http://ex.test/'' 0" "example_net []"
        1500000 "[]" live_ctx "\<lparr>buf = [], cap = 100, closed = False\<rparr>" "[]" "PageInfo ''Home'' [] []"]
    by (simp add: v p g)
  show ?thesis using a b c d r by simp
qed


text \<open>What a pass does to the visited set.\<close>

lemma worker_body_visited_set:
  "visited (fst (snd (worker_body net ctx c jobs job))) =
     (if isVisited c (job_URL job) then visited c else (visited c)(job_URL job \<mapsto> True))"
proof (cases rule: worker_body_cases[where c=c and job=job and net=net])
  case skip
  then show ?thesis by (simp add: worker_body_visited)
next
  case (get_error d e)
  then show ?thesis by (simp add: worker_body_GetError markVisited_def)
next
  case (bad_status d code parsed)
  then show ?thesis by (simp add: worker_body_status markVisited_def)
next
  case (parse_error d e)
  then show ?thesis by (simp add: worker_body_parse_error markVisited_def)
next
  case (success d info)
  then show ?thesis
    by (simp add: worker_body_success Let_def markVisited_def split: option.splits)
qed

text \<open>
  Claim C3, as the code has it. The key stored in the visited set is the job's URL
  string as it stands: a pass for a job whose URL is not yet a key adds exactly that
  string, a pass for a job whose URL is already a key does nothing, and after a pass a
  string is visited if and only if it is the job's URL or was visited before. Nothing
  is normalised, so a URL that differs from a visited one in its fragment is a
  different key.
\<close>

theorem visited_key_verbatim:
  "(\<not> isVisited c (job_URL job) \<longrightarrow>
      visited (fst (snd (worker_body net ctx c jobs job))) = (visited c)(job_URL job \<mapsto> True)) \<and>
   (isVisited c (job_URL job) \<longrightarrow> worker_body net ctx c jobs job = (Running, c, jobs)) \<and>
   (isVisited (fst (snd (worker_body net ctx c jobs job))) u \<longleftrightarrow> u = job_URL job \<or> isVisited c u)"
proof -
  have "isVisited (fst (snd (worker_body net ctx c jobs job))) u \<longleftrightarrow> u = job_URL job \<or> isVisited c u"
    unfolding isVisited_def worker_body_visited_set
    by (auto simp add: isVisited_def split: option.splits)
  then show ?thesis
    by (simp add: worker_body_visited_set worker_body_visited)
qed

text \<open>Claiming \<^verbatim>\<open>http://ex.test/a#x\<close> stores that string, a second claim of it is skipped,
  and \<^verbatim>\<open>http://ex.test/a#y\<close> stays free.\<close>

theorem visited_key_verbatim_witness:
  "visited (fst (snd (worker_body (example_net []) live_ctx (example_crawler 1)
       \<lparr>buf = [], cap = 100, closed = False\<rparr> (Job ''http://ex.test/a#x'' 1))))
     = Map.empty(''http://ex.test/a#x'' \<mapsto> True) \<and>
   worker_body (example_net []) live_ctx
       ((example_crawler 1)\<lparr>visited := Map.empty(''http://ex.test/a#x'' \<mapsto> True)\<rparr>)
       \<lparr>buf = [], cap = 100, closed = False\<rparr> (Job ''http://ex.test/a#x'' 1)
     = (Running, (example_crawler 1)\<lparr>visited := Map.empty(''http://ex.test/a#x'' \<mapsto> True)\<rparr>,
        \<lparr>buf = [], cap = 100, closed = False\<rparr>) \<and>
   \<not> isVisited (fst (snd (worker_body (example_net []) live_ctx (example_crawler 1)
       \<lparr>buf = [], cap = 100, closed = False\<rparr> (Job ''http://ex.test/a#x'' 1)))) ''http://ex.test/a#y''"
proof -
  have v: "\<not> isVisited (example_crawler 1) u" for u
    by (simp add: isVisited_def example_crawler_def)
  have w: "isVisited ((example_crawler 1)\<lparr>visited := Map.empty(''http://ex.test/a#x'' \<mapsto> True)\<rparr>)
     ''http://ex.test/a#x''"
    by (simp add: isVisited_def)
  have e: "visited (example_crawler 1) = Map.empty"
    by (simp add: example_crawler_def)
  show ?thesis
    using
      visited_key_verbatim[of "example_crawler 1" "Job ''http://ex.test/a#x'' 1" "example_net []"
        live_ctx "\<lparr>buf = [], cap = 100, closed = False\<rparr>" "''http://ex.test/a#y''"]
      visited_key_verbatim[of
        "(example_crawler 1)\<lparr>visited := Map.empty(''http://ex.test/a#x'' \<mapsto> True)\<rparr>"
        "Job ''http://ex.test/a#x'' 1" "example_net []"
        live_ctx "\<lparr>buf = [], cap = 100, closed = False\<rparr>" "''http://ex.test/a#y''"]
    by (simp add: v w e)
qed

text \<open>
  The claim as stated fails: a home page with the links \<^verbatim>\<open>/a#x\<close> and \<^verbatim>\<open>/a#y\<close> makes the
  worker fetch both \<^verbatim>\<open>http://ex.test/a#x\<close> and \<^verbatim>\<open>http://ex.test/a#y\<close>; both strings are keys
  of the visited set and the fragment-free URL is not.
\<close>

theorem fragment_not_stripped_counterexample:
  "map URL (pages (results (fst (snd
      (worker (example_net [''/a#x'', ''/a#y'']) [live_ctx, live_ctx, live_ctx] (example_crawler 1)
         (Crawl_jobs ''http://ex.test/''))))))
     = [''http://ex.test/'', ''http://ex.test/a#x'', ''http://ex.test/a#y''] \<and>
   isVisited (fst (snd
      (worker (example_net [''/a#x'', ''/a#y'']) [live_ctx, live_ctx, live_ctx] (example_crawler 1)
         (Crawl_jobs ''http://ex.test/'')))) ''http://ex.test/a#x'' \<and>
   isVisited (fst (snd
      (worker (example_net [''/a#x'', ''/a#y'']) [live_ctx, live_ctx, live_ctx] (example_crawler 1)
         (Crawl_jobs ''http://ex.test/'')))) ''http://ex.test/a#y'' \<and>
   \<not> isVisited (fst (snd
      (worker (example_net [''/a#x'', ''/a#y'']) [live_ctx, live_ctx, live_ctx] (example_crawler 1)
         (Crawl_jobs ''http://ex.test/'')))) ''http://ex.test/a''"
  by (simp add: example_defs worker_defs)

section \<open>The scope check\<close>


lemma shouldCrawl_iff:
  "shouldCrawl net target base \<longleftrightarrow>
     (\<exists>t. url_Parse net target = Some t \<and> Host t = Host base \<and>
          (Scheme t = ''http'' \<or> Scheme t = ''https''))"
  by (simp add: shouldCrawl_def split: option.splits)

lemma enqueue_links_malformed:
  "url_Parse net href = None \<Longrightarrow>
     resolveURL net base href = [] \<and>
     enqueue_links net ctx base depth (href # rest) i jobs
       = enqueue_links net ctx base depth rest (Suc i) jobs"
  by (simp add: resolveURL_def Let_def)

lemma worker_jobs_scope:
  assumes "\<forall>j \<in> set (buf jobs). in_seed_scope net startURL seed j"
  shows "\<forall>j \<in> set (worker_jobs net ctxs c jobs). in_seed_scope net startURL seed j"
  using assms
proof (induction ctxs arbitrary: c jobs)
  case Nil
  show ?case by simp
next
  case (Cons ctx ctxs)
  show ?case
  proof (cases "outer_Done ctx")
    case True
    then show ?thesis by simp
  next
    case False
    show ?thesis
    proof (cases "buf jobs")
      case Nil
      with False show ?thesis by (simp add: chan_recv_def)
    next
      case (Cons job rest)
      let ?jobs1 = "jobs\<lparr>buf := rest\<rparr>"
      obtain st c' jobs' where w: "worker_body net ctx c ?jobs1 job = (st, c', jobs')"
        by (cases "worker_body net ctx c ?jobs1 job")
      from worker_body_effect[OF w] obtain cs where e:
        "jobs' = ?jobs1\<lparr>buf := buf ?jobs1 @ cs\<rparr>"
        "\<forall>ch \<in> set cs. \<exists>base. url_Parse net (job_URL job) = Some base \<and>
              shouldCrawl net (job_URL ch) base" by blast
      have js: "in_seed_scope net startURL seed job" using Cons.prems Cons by simp
      have "in_seed_scope net startURL seed ch" if "ch \<in> set cs" for ch
      proof -
        from e(2) that obtain base where b: "url_Parse net (job_URL job) = Some base"
          "shouldCrawl net (job_URL ch) base" by blast
        from js b(1) have "Host base = Host seed" by (simp add: in_seed_scope_def)
        with b(2) show ?thesis
          by (auto simp add: in_seed_scope_def shouldCrawl_def split: option.splits)
      qed
      then have "\<forall>j \<in> set (buf jobs'). in_seed_scope net startURL seed j"
        using e(1) Cons.prems Cons by auto
      from Cons.IH[OF this]
      have ih: "\<forall>j \<in> set (worker_jobs net ctxs c' jobs'). in_seed_scope net startURL seed j" .
      show ?thesis
        using False Cons w ih js by (simp add: chan_recv_def)
    qed
  qed
qed

text \<open>
  Claim C5. \<^verbatim>\<open>shouldCrawl\<close> is a function of the target string and the base URL: it is
  true if and only if the target parses to a URL whose host equals the base's host and
  whose scheme is \<^verbatim>\<open>http\<close> or \<^verbatim>\<open>https\<close>, and false for a target that does not parse. A
  link that does not parse resolves to the empty string and the link loop passes over
  it without an error. The base handed to the check is the URL of the page the link
  was found on, and in a crawl that URL always has the seed's host: every job that a
  crawl from a seed that parses ever receives has a URL with the seed's host, and,
  unless it is the seed URL itself, the scheme \<^verbatim>\<open>http\<close> or \<^verbatim>\<open>https\<close>.
\<close>

theorem scope_check:
  "(shouldCrawl net target base \<longleftrightarrow>
      (\<exists>t. url_Parse net target = Some t \<and> Host t = Host base \<and>
           (Scheme t = ''http'' \<or> Scheme t = ''https''))) \<and>
   (url_Parse net target = None \<longrightarrow> \<not> shouldCrawl net target base) \<and>
   (url_Parse net href = None \<longrightarrow>
      resolveURL net base href = [] \<and>
      enqueue_links net ctx base depth (href # rest) i jobs
        = enqueue_links net ctx base depth rest (Suc i) jobs) \<and>
   (url_Parse net startURL = Some seed \<longrightarrow>
      (\<forall>j \<in> set (worker_jobs net ctxs c (Crawl_jobs startURL)).
         \<exists>t. url_Parse net (job_URL j) = Some t \<and> Host t = Host seed \<and>
             (job_URL j = startURL \<or> Scheme t = ''http'' \<or> Scheme t = ''https'')))"
proof -
  have r: "\<forall>j \<in> set (worker_jobs net ctxs c (Crawl_jobs startURL)). in_seed_scope net startURL seed j"
    if "url_Parse net startURL = Some seed"
    by (rule worker_jobs_scope) (use that in \<open>simp add: Crawl_jobs_def in_seed_scope_def\<close>)
  have q: "\<exists>t. url_Parse net (job_URL j) = Some t \<and> Host t = Host seed \<and>
             (job_URL j = startURL \<or> Scheme t = ''http'' \<or> Scheme t = ''https'')"
    if "in_seed_scope net startURL seed j" for j
    using that by (simp add: in_seed_scope_def split: option.splits)
  show ?thesis
    using shouldCrawl_iff[of net target base]
      enqueue_links_malformed[of net href base ctx depth rest i jobs] r q
    by (simp del: enqueue_links.simps)
qed

text \<open>Against the base \<^verbatim>\<open>http://ex.test/\<close>: the same host is in scope, another host and the
  scheme \<^verbatim>\<open>ftp\<close> are not, the malformed \<^verbatim>\<open>http://ex.test/%zz\<close> is not and is passed over
  by the link loop, and the crawl receives only the seed and \<^verbatim>\<open>/a\<close>.\<close>

theorem scope_check_witness:
  "shouldCrawl (example_net []) ''http://ex.test/a'' example_base \<and>
   \<not> shouldCrawl (example_net []) ''http://other.test/x'' example_base \<and>
   \<not> shouldCrawl (example_net []) ''ftp://ex.test/f'' example_base \<and>
   \<not> shouldCrawl (example_net []) ''http://ex.test/%zz'' example_base \<and>
   enqueue_links (example_net []) live_ctx example_base 0 [''http://ex.test/%zz'', ''/a''] 0
       \<lparr>buf = [], cap = 100, closed = False\<rparr>
     = (Running, \<lparr>buf = [Job ''http://ex.test/a'' 1], cap = 100, closed = False\<rparr>) \<and>
   worker_jobs (example_net [''/a'', ''http://other.test/x'', ''http://ex.test/%zz''])
       [live_ctx, live_ctx, live_ctx] (example_crawler 2) (Crawl_jobs ''http://ex.test/'')
     = [Job ''http://ex.test/'' 0, Job ''http://ex.test/a'' 1] \<and>
   (\<exists>t. url_Parse (example_net [''/a'', ''http://other.test/x'', ''http://ex.test/%zz''])
          ''http://ex.test/a'' = Some t \<and> Host t = Host example_base)"
proof -
  let ?net = "example_net [''/a'', ''http://other.test/x'', ''http://ex.test/%zz'']"
  have p: "url_Parse (example_net []) ''http://ex.test/a''
       = Some \<lparr>Scheme = ''http'', Host = ''ex.test'', Path = ''/a'', RawQuery = [], Fragment = []\<rparr>"
    "url_Parse (example_net []) ''http://other.test/x''
       = Some \<lparr>Scheme = ''http'', Host = ''other.test'', Path = ''/x'', RawQuery = [], Fragment = []\<rparr>"
    "url_Parse (example_net []) ''ftp://ex.test/f''
       = Some \<lparr>Scheme = ''ftp'', Host = ''ex.test'', Path = ''/f'', RawQuery = [], Fragment = []\<rparr>"
    "url_Parse (example_net []) ''http://ex.test/%zz'' = None"
    "url_Parse ?net ''http://ex.test/'' = Some example_base"
    "url_Parse ?net ''http://ex.test/a''
       = Some \<lparr>Scheme = ''http'', Host = ''ex.test'', Path = ''/a'', RawQuery = [], Fragment = []\<rparr>"
    by (simp_all add: example_net_def example_Parse_def example_base_def)
  have a: "shouldCrawl (example_net []) ''http://ex.test/a'' example_base"
    using scope_check[of "example_net []" "''http://ex.test/a''" example_base "[]" live_ctx 0 "[]" 0
        "\<lparr>buf = [], cap = 100, closed = False\<rparr>" "[]" example_base "[]" "example_crawler 2"]
    by (simp add: p example_base_def)
  have b: "\<not> shouldCrawl (example_net []) ''http://other.test/x'' example_base"
    using scope_check[of "example_net []" "''http://other.test/x''" example_base "[]" live_ctx 0 "[]" 0
        "\<lparr>buf = [], cap = 100, closed = False\<rparr>" "[]" example_base "[]" "example_crawler 2"]
    by (simp add: p example_base_def)
  have c: "\<not> shouldCrawl (example_net []) ''ftp://ex.test/f'' example_base"
    using scope_check[of "example_net []" "''ftp://ex.test/f''" example_base "[]" live_ctx 0 "[]" 0
        "\<lparr>buf = [], cap = 100, closed = False\<rparr>" "[]" example_base "[]" "example_crawler 2"]
    by (simp add: p example_base_def)
  have e: "enqueue_links (example_net []) live_ctx example_base 0 [''/a''] 0 \<lparr>buf = [], cap = 100, closed = False\<rparr>
     = (Running, \<lparr>buf = [Job ''http://ex.test/a'' 1], cap = 100, closed = False\<rparr>)"
    by (simp add: example_defs worker_defs example_base_def)
  have d: "\<not> shouldCrawl (example_net []) ''http://ex.test/%zz'' example_base \<and>
     enqueue_links (example_net []) live_ctx example_base 0 [''http://ex.test/%zz'', ''/a''] 0
       \<lparr>buf = [], cap = 100, closed = False\<rparr>
     = enqueue_links (example_net []) live_ctx example_base 0 [''/a''] 1 \<lparr>buf = [], cap = 100, closed = False\<rparr>"
    using scope_check[of "example_net []" "''http://ex.test/%zz''" example_base "''http://ex.test/%zz''"
        live_ctx 0 "[''/a'']" 0
        "\<lparr>buf = [], cap = 100, closed = False\<rparr>" "[]" example_base "[]" "example_crawler 2"]
    by (simp add: p del: enqueue_links.simps)
  have e1: "enqueue_links (example_net []) live_ctx example_base 0 [''/a''] 1 \<lparr>buf = [], cap = 100, closed = False\<rparr>
     = (Running, \<lparr>buf = [Job ''http://ex.test/a'' 1], cap = 100, closed = False\<rparr>)"
    by (simp add: example_defs worker_defs example_base_def)
  have f: "worker_jobs ?net [live_ctx, live_ctx, live_ctx] (example_crawler 2) (Crawl_jobs ''http://ex.test/'')
     = [Job ''http://ex.test/'' 0, Job ''http://ex.test/a'' 1]"
    by (simp add: example_defs worker_defs)
  from scope_check[of ?net "''http://ex.test/a''" example_base "[]" live_ctx 0 "[]" 0
        "\<lparr>buf = [], cap = 100, closed = False\<rparr>" "''http://ex.test/''" example_base
        "[live_ctx, live_ctx, live_ctx]" "example_crawler 2"] p(5)
  have "\<forall>j \<in> set (worker_jobs ?net [live_ctx, live_ctx, live_ctx] (example_crawler 2)
            (Crawl_jobs ''http://ex.test/'')).
          \<exists>t. url_Parse ?net (job_URL j) = Some t \<and> Host t = Host example_base \<and>
             (job_URL j = ''http://ex.test/'' \<or> Scheme t = ''http'' \<or> Scheme t = ''https'')"
    by blast
  then have g: "\<exists>t. url_Parse ?net ''http://ex.test/a'' = Some t \<and> Host t = Host example_base"
    unfolding f by auto
  show ?thesis using a b c d e1 f g by simp
qed

section \<open>Claiming a URL from two workers\<close>

text \<open>When one worker finishes its check and its store before the other starts, the first
  fetches and the second skips.\<close>

lemma claim_sequential:
  "snd (claim_run [0, 0, 1, 1] (c\<lparr>visited := Map.empty\<rparr>, [(u, AtIsVisited), (u, AtIsVisited)]))
     = [(u, Fetches), (u, Skips)]"
  by (simp add: claim_run_def claim_step_def isVisited_def markVisited_def)

text \<open>
  Claim C1 asks that of all workers claiming one URL exactly one goes on to fetch it.
  The code does not do this: two workers hold a job for the same URL \<open>u\<close>, which no
  one has visited; worker 0 calls \<^verbatim>\<open>isVisited\<close>, then worker 1 calls \<^verbatim>\<open>isVisited\<close>, then each
  calls \<^verbatim>\<open>markVisited\<close>. Both checks see the URL absent, and both workers fetch.
\<close>

theorem tryClaim_race:
  "snd (claim_run [0, 1, 0, 1] (c\<lparr>visited := Map.empty\<rparr>, [(u, AtIsVisited), (u, AtIsVisited)]))
     = [(u, Fetches), (u, Fetches)]"
  by (simp add: claim_run_def claim_step_def isVisited_def markVisited_def)

end
